theory Spec2Isabelle
  imports Main
begin

section \<open>JavaScript values and errors\<close>

text \<open>
  The adapter is TypeScript, but its claims reach outside the declared types (a
  configuration that is not an object, a property that is present but undefined), so
  the configuration is modelled at the level of JavaScript values. Only primitive
  values are needed; \<open>truthy\<close> is JavaScript's ToBoolean on them.
\<close>

datatype jsval = JUndefined | JNull | JBool bool | JNum int | JStr string

fun truthy :: "jsval \<Rightarrow> bool" where
  "truthy JUndefined = False"
| "truthy JNull = False"
| "truthy (JBool b) = b"
| "truthy (JNum n) = (n \<noteq> 0)"
| "truthy (JStr s) = (s \<noteq> [])"

text \<open>
  What can be thrown: the TypeError of a call on something that is no function or no
  array, the SyntaxError of \<open>querySelector\<close> on an invalid selector, and whatever value
  a user-supplied factory throws.
\<close>

datatype error = TypeError | SyntaxError | Thrown jsval

section \<open>The document\<close>

text \<open>
  A link element carries the three attributes the adapter reads and writes. An element
  has an identity \<open>nid\<close>: two elements with equal attributes are still two elements.
  The document is its elements in document order, split where \<open>document.head\<close> ends:
  \<open>head_nodes\<close> are the elements up to the last descendant of the head,
  \<open>body_nodes\<close> those after it. \<open>document.head.appendChild\<close> therefore inserts
  between the two parts.
\<close>

record link_attrs =
  rel_attr :: "string option"
  as_attr :: "string option"
  href_attr :: "string option"

record node =
  nid :: nat
  tag_name :: string
  attrs :: link_attrs

text \<open>
  \<open>foreign\<close> is the platform's selector engine on the selector texts that are not
  interpreted below: for such a text it gives the predicate the selector denotes, or
  \<open>None\<close> when the text is no valid selector.
\<close>

record document =
  head_nodes :: "node list"
  body_nodes :: "node list"
  foreign :: "string \<Rightarrow> (node \<Rightarrow> bool) option"

definition all_nodes :: "document \<Rightarrow> node list" where
  "all_nodes d = head_nodes d @ body_nodes d"

subsection \<open>Attribute selectors\<close>

text \<open>
  In an HTML document the value of \<open>rel\<close> is compared ASCII case-insensitively by an
  attribute selector; the values of \<open>as\<close> and \<open>href\<close> are compared exactly.
\<close>

definition ascii_lower :: "char \<Rightarrow> char" where
  "ascii_lower c =
     (if 65 \<le> (of_char c :: nat) \<and> (of_char c :: nat) \<le> 90
      then char_of (of_char c + 32 :: nat) else c)"

definition rel_is :: "string \<Rightarrow> node \<Rightarrow> bool" where
  "rel_is v n \<longleftrightarrow>
     (case rel_attr (attrs n) of None \<Rightarrow> False | Some r \<Rightarrow> map ascii_lower r = v)"

text \<open>\<open>link[rel="stylesheet"]\<close> and \<open>link[rel="preload"][as="style"]\<close>.\<close>

definition stylesheet_link :: "node \<Rightarrow> bool" where
  "stylesheet_link n \<longleftrightarrow> tag_name n = ''link'' \<and> rel_is ''stylesheet'' n"

definition preload_link :: "node \<Rightarrow> bool" where
  "preload_link n \<longleftrightarrow>
     tag_name n = ''link'' \<and> rel_is ''preload'' n \<and> as_attr (attrs n) = Some ''style''"

text \<open>A stylesheet link whose href attribute is exactly the URL.\<close>

definition matches_stylesheet :: "string \<Rightarrow> node \<Rightarrow> bool" where
  "matches_stylesheet url n \<longleftrightarrow> stylesheet_link n \<and> href_attr (attrs n) = Some url"

subsection \<open>The URL inside the quoted string of the selector\<close>

text \<open>
  The adapter pastes the URL, as it is, between double quotes into the selector text. The
  CSS tokenizer reads that text as code points: it first replaces CR, FF and CR LF by LF
  and NUL by U+FFFD, and then reads the quoted string, in which a newline is an error, a
  backslash starts an escape (a line continuation, up to six hexadecimal digits with one
  optional white space after them, or the next code point taken literally) and a double
  quote ends the string.
\<close>

definition filter_code_point :: "nat \<Rightarrow> nat" where
  "filter_code_point c = (if c = 13 \<or> c = 12 then 10 else if c = 0 then 65533 else c)"

fun filter_code_points :: "nat list \<Rightarrow> nat list" where
  "filter_code_points (c # d # cs) =
     (if c = 13 \<and> d = 10 then 10 # filter_code_points cs
      else filter_code_point c # filter_code_points (d # cs))"
| "filter_code_points [c] = [filter_code_point c]"
| "filter_code_points [] = []"

definition is_hex :: "nat \<Rightarrow> bool" where
  "is_hex c \<longleftrightarrow> (48 \<le> c \<and> c \<le> 57) \<or> (65 \<le> c \<and> c \<le> 70) \<or> (97 \<le> c \<and> c \<le> 102)"

definition hex_value :: "nat \<Rightarrow> nat" where
  "hex_value c = (if c \<le> 57 then c - 48 else if c \<le> 70 then c - 55 else c - 87)"

definition is_css_space :: "nat \<Rightarrow> bool" where
  "is_css_space c \<longleftrightarrow> c = 10 \<or> c = 9 \<or> c = 32"

definition escaped_code_point :: "nat \<Rightarrow> nat" where
  "escaped_code_point v =
     (if v = 0 \<or> (55296 \<le> v \<and> v \<le> 57343) \<or> 1114111 < v then 65533 else v)"

text \<open>
  The tokenizer inside the string: reading the value so far, just after a backslash,
  inside a hexadecimal escape (value and number of digits so far), after the closing
  quote (with the text that follows it), or after a newline in the string.
\<close>

datatype scan =
  InString "nat list"
| Escape "nat list"
| Hex "nat list" nat nat
| Closed "nat list" "nat list"
| BadString

definition plain_step :: "nat list \<Rightarrow> nat \<Rightarrow> scan" where
  "plain_step acc c =
     (if c = 34 then Closed acc []
      else if c = 10 then BadString
      else if c = 92 then Escape acc
      else InString (acc @ [c]))"

fun scan_step :: "scan \<Rightarrow> nat \<Rightarrow> scan" where
  "scan_step (InString acc) c = plain_step acc c"
| "scan_step (Escape acc) c =
     (if c = 10 then InString acc
      else if is_hex c then Hex acc (hex_value c) 1
      else InString (acc @ [c]))"
| "scan_step (Hex acc v n) c =
     (if is_hex c \<and> n < 6 then Hex acc (16 * v + hex_value c) (Suc n)
      else if is_css_space c then InString (acc @ [escaped_code_point v])
      else plain_step (acc @ [escaped_code_point v]) c)"
| "scan_step (Closed acc rest) c = Closed acc (rest @ [c])"
| "scan_step BadString c = BadString"

text \<open>
  What the selector text \<open>...[href="\<close> + url + \<open>"]\<close> asks of the href attribute. When
  the string ends at the quote the adapter wrote and \<open>]\<close> follows, the selector asks
  for the decoded value. When a newline is met inside the string the selector is invalid.
  In the remaining cases (the URL closes the string early and the rest of it is read as
  selector syntax, or the URL escapes the closing quote) the selector is left to the
  platform's engine.
\<close>

datatype href_tail = HrefValue "nat list" | Invalid | Foreign

definition dq :: char where
  "dq = CHR 0x22"

definition href_tail :: "string \<Rightarrow> href_tail" where
  "href_tail url =
     (case foldl scan_step (InString [])
             (filter_code_points (map of_char (url @ [dq] @ '']''))) of
        Closed v rest \<Rightarrow> if rest = [93] then HrefValue v else Foreign
      | BadString \<Rightarrow> Invalid
      | InString v \<Rightarrow> Foreign
      | Escape v \<Rightarrow> Foreign
      | Hex v x n \<Rightarrow> Foreign)"

definition href_is :: "nat list \<Rightarrow> node \<Rightarrow> bool" where
  "href_is v n \<longleftrightarrow>
     (case href_attr (attrs n) of None \<Rightarrow> False | Some h \<Rightarrow> map of_char h = v)"

text \<open>The selector texts the adapter builds with its template literals.\<close>

definition preload_selector :: "string \<Rightarrow> string" where
  "preload_selector url =
     ''link[rel='' @ [dq] @ ''preload'' @ [dq] @ ''][as='' @ [dq] @ ''style'' @ [dq] @
     ''][href='' @ [dq] @ url @ [dq] @ '']''"

definition stylesheet_selector :: "string \<Rightarrow> string" where
  "stylesheet_selector url =
     ''link[rel='' @ [dq] @ ''stylesheet'' @ [dq] @ ''][href='' @ [dq] @ url @ [dq] @ '']''"

text \<open>
  \<open>document.querySelector\<close> on such a text: a SyntaxError for an invalid selector,
  otherwise the first match in document order, or null. \<open>base\<close> is what the part of the
  selector before \<open>[href=\<close> asks for.
\<close>

definition query :: "document \<Rightarrow> (node \<Rightarrow> bool) \<Rightarrow> string \<Rightarrow> string \<Rightarrow> error + node option" where
  "query d base selector url =
     (case href_tail url of
        HrefValue v \<Rightarrow> Inr (find (\<lambda>n. base n \<and> href_is v n) (all_nodes d))
      | Invalid \<Rightarrow> Inl SyntaxError
      | Foreign \<Rightarrow>
          (case foreign d selector of
             None \<Rightarrow> Inl SyntaxError
           | Some p \<Rightarrow> Inr (find p (all_nodes d))))"

definition querySelector_preload :: "document \<Rightarrow> string \<Rightarrow> error + node option" where
  "querySelector_preload d url = query d preload_link (preload_selector url) url"

definition querySelector_stylesheet :: "document \<Rightarrow> string \<Rightarrow> error + node option" where
  "querySelector_stylesheet d url = query d stylesheet_link (stylesheet_selector url) url"

text \<open>
  A URL with none of the code points that are special inside the quoted string: for it
  the selector asks for exactly the URL.
\<close>

definition css_plain :: "string \<Rightarrow> bool" where
  "css_plain url \<longleftrightarrow>
     (\<forall>c \<in> set url. (of_char c :: nat) \<notin> {0, 10, 12, 13, 34, 92})"

definition appendChild_head :: "document \<Rightarrow> node \<Rightarrow> document" where
  "appendChild_head d n = d\<lparr>head_nodes := head_nodes d @ [n]\<rparr>"

text \<open>\<open>linkEl.parentNode\<close> is non-null exactly when the element is attached.\<close>

definition has_parent :: "document \<Rightarrow> node \<Rightarrow> bool" where
  "has_parent d n \<longleftrightarrow> nid n \<in> nid ` set (all_nodes d)"

definition removeChild :: "document \<Rightarrow> node \<Rightarrow> document" where
  "removeChild d n =
     d\<lparr>head_nodes := filter (\<lambda>m. nid m \<noteq> nid n) (head_nodes d),
       body_nodes := filter (\<lambda>m. nid m \<noteq> nid n) (body_nodes d)\<rparr>"

text \<open>
  \<open>document.createElement("link")\<close> followed by the assignments of the attributes: a
  new, detached link element with the given identity and attributes.
\<close>

definition new_link :: "nat \<Rightarrow> link_attrs \<Rightarrow> node" where
  "new_link k a = \<lparr>nid = k, tag_name = ''link'', attrs = a\<rparr>"

section \<open>Configuration\<close>

text \<open>
  \<open>CssUrl\<close> is a bare string or an object with \<open>href\<close>; the second argument of
  \<open>UrlRecord\<close> is the object's own property \<open>shouldUnmount\<close>: \<open>None\<close> when the
  object has no such own property, \<open>Some v\<close> when it has one with value \<open>v\<close>
  (possibly \<open>JUndefined\<close>).
\<close>

datatype css_url = UrlString string | UrlRecord string "jsval option"

text \<open>
  The value stored under \<open>cssUrls\<close> is a reference to an array in the store, or a
  primitive value that is no array.
\<close>

datatype css_urls_val = Arr nat | NotArr jsval

text \<open>
  The value stored under \<open>createLink\<close> is \<open>undefined\<close> or a function. The adapter
  calls it as a method, \<open>opts.createLink(url)\<close>, so the function receives the merged
  options as \<open>this\<close> (their fields other than \<open>createLink\<close> itself) besides the URL.
  The call throws, or returns a link element; the function is taken to build a new
  element on each call, given here by its attributes, and to change nothing else.
\<close>

record this_opts =
  this_cssUrls :: css_urls_val
  this_webpackExtractedCss :: jsval
  this_timeout :: jsval
  this_shouldUnmount :: jsval

datatype factory = FUndefined | FFun "this_opts \<Rightarrow> string \<Rightarrow> error + link_attrs"

text \<open>
  The caller's object \<open>_opts\<close>: each field is \<open>None\<close> when the object has no such
  own property. The argument itself may fail to be an object.
\<close>

record raw_opts =
  r_cssUrls :: "css_urls_val option"
  r_webpackExtractedCss :: "jsval option"
  r_timeout :: "jsval option"
  r_shouldUnmount :: "jsval option"
  r_createLink :: "factory option"

datatype opts_input = NotObject jsval | Object raw_opts

record opts =
  cssUrls :: css_urls_val
  webpackExtractedCss :: jsval
  timeout :: jsval
  shouldUnmount :: jsval
  createLink :: factory

text \<open>The array literal of \<open>defaultOptions.cssUrls\<close> lives at a fixed address.\<close>

definition default_cssUrls_addr :: nat where
  "default_cssUrls_addr = 0"

text \<open>
  The default factory is an arrow function: it ignores \<open>this\<close>, and it returns a link
  element with the given href and rel "stylesheet".
\<close>

definition stylesheet_attrs :: "string \<Rightarrow> link_attrs" where
  "stylesheet_attrs url =
     \<lparr>rel_attr = Some ''stylesheet'', as_attr = None, href_attr = Some url\<rparr>"

definition default_createLink :: "this_opts \<Rightarrow> string \<Rightarrow> error + link_attrs" where
  "default_createLink this url = Inr (stylesheet_attrs url)"

definition defaultOptions :: opts where
  "defaultOptions =
     \<lparr>cssUrls = Arr default_cssUrls_addr,
      webpackExtractedCss = JBool False,
      timeout = JNum 5000,
      shouldUnmount = JBool True,
      createLink = FFun default_createLink\<rparr>"

text \<open>
  \<open>Object.assign({}, defaultOptions, _opts)\<close>: every own property of \<open>_opts\<close>
  overrides the default, whatever its value; a primitive \<open>_opts\<close> contributes no named
  property.
\<close>

definition override :: "'a \<Rightarrow> 'a option \<Rightarrow> 'a" where
  "override d p = (case p of None \<Rightarrow> d | Some v \<Rightarrow> v)"

fun assign_opts :: "opts \<Rightarrow> opts_input \<Rightarrow> opts" where
  "assign_opts d (NotObject v) = d"
| "assign_opts d (Object r) =
     \<lparr>cssUrls = override (cssUrls d) (r_cssUrls r),
      webpackExtractedCss = override (webpackExtractedCss d) (r_webpackExtractedCss r),
      timeout = override (timeout d) (r_timeout r),
      shouldUnmount = override (shouldUnmount d) (r_shouldUnmount r),
      createLink = override (createLink d) (r_createLink r)\<rparr>"

text \<open>
  The globals the webpack plugin provides: \<open>__webpack_require__.cssAssets\<close>,
  \<open>__webpack_public_path__\<close> and \<open>__webpack_require__.cssAssetFileName\<close>.
\<close>

record webpack =
  cssAssets :: "string list"
  public_path :: string
  cssAssetFileName :: "string \<Rightarrow> string"

section \<open>State\<close>

datatype pstate = Pending | Fulfilled | Rejected error

text \<open>A queued microtask: the callback of \<open>Promise.resolve().then(...)\<close> in unmount.\<close>

datatype task = RemoveLink node string nat

text \<open>
  \<open>arrays\<close> is the store of arrays, \<open>doc\<close> the document, \<open>next_id\<close> the identity
  of the next element created, \<open>promises\<close> the promises created so far (a promise is
  its index), \<open>listeners\<close> the registered event listeners (element, event type,
  promise resolved by the listener), \<open>microtasks\<close> the microtask queue. The last two
  fields are the closure variables of the adapter.
\<close>

record state =
  arrays :: "nat \<Rightarrow> css_url list"
  doc :: document
  next_id :: nat
  promises :: "pstate list"
  listeners :: "(nat \<times> string \<times> nat) list"
  microtasks :: "task list"
  linkElements :: "string \<rightharpoonup> node"
  linkElementsToUnmount :: "(node \<times> string) list"

text \<open>A new promise in the given state; the result is the promise.\<close>

definition new_promise :: "pstate \<Rightarrow> state \<Rightarrow> nat \<times> state" where
  "new_promise v st = (length (promises st), st\<lparr>promises := promises st @ [v]\<rparr>)"

text \<open>Settling a promise that is already settled does nothing.\<close>

definition settle :: "nat \<Rightarrow> pstate \<Rightarrow> pstate list \<Rightarrow> pstate list" where
  "settle p v ps = (if p < length ps \<and> ps ! p = Pending then ps[p := v] else ps)"

text \<open>
  \<open>Promise.all\<close>, as the state the composite promise reaches: rejected with the first
  rejection, fulfilled when every member is, pending otherwise.
\<close>

fun promise_all :: "pstate list \<Rightarrow> nat list \<Rightarrow> pstate" where
  "promise_all ps [] = Fulfilled"
| "promise_all ps (p # rest) =
     (case (if p < length ps then ps ! p else Pending) of
        Rejected e \<Rightarrow> Rejected e
      | Fulfilled \<Rightarrow> promise_all ps rest
      | Pending \<Rightarrow> (case promise_all ps rest of Rejected e \<Rightarrow> Rejected e | _ \<Rightarrow> Pending))"

text \<open>
  \<open>xs.map(x => ...)\<close> where the callback returns a promise and changes the state: the
  callbacks run in order, each in the state the previous one left.
\<close>

fun map_promises :: "('a \<Rightarrow> state \<Rightarrow> nat \<times> state) \<Rightarrow> 'a list \<Rightarrow> state \<Rightarrow> nat list \<times> state" where
  "map_promises f [] st = ([], st)"
| "map_promises f (x # xs) st =
     (let (p, st1) = f x st; (ps, st2) = map_promises f xs st1 in (p # ps, st2))"

section \<open>The adapter\<close>

text \<open>The merged options as the factory sees them through \<open>this\<close>.\<close>

definition this_of :: "opts \<Rightarrow> this_opts" where
  "this_of opts =
     \<lparr>this_cssUrls = cssUrls opts,
      this_webpackExtractedCss = webpackExtractedCss opts,
      this_timeout = timeout opts,
      this_shouldUnmount = shouldUnmount opts\<rparr>"

definition extractUrl :: "opts \<Rightarrow> css_url \<Rightarrow> string \<times> jsval" where
  "extractUrl opts cssUrl =
     (case cssUrl of
        UrlString s \<Rightarrow> (s, shouldUnmount opts)
      | UrlRecord h p \<Rightarrow>
          (h, case p of Some v \<Rightarrow> v | None \<Rightarrow> shouldUnmount opts))"

text \<open>
  Construction. The merged options share the \<open>cssUrls\<close> array with the caller (or
  with \<open>defaultOptions\<close>); \<open>push\<close> on a value that is no array throws a TypeError. The
  result is the merged options and the state with the closure variables initialised.
\<close>

definition singleSpaCss :: "webpack \<Rightarrow> opts_input \<Rightarrow> state \<Rightarrow> error + (opts \<times> state)" where
  "singleSpaCss wp inp st =
     (let opts = assign_opts defaultOptions inp;
          fresh = (\<lambda>s. s\<lparr>linkElements := Map.empty, linkElementsToUnmount := []\<rparr>)
      in if truthy (webpackExtractedCss opts) then
           (case cssUrls opts of
              NotArr v \<Rightarrow> Inl TypeError
            | Arr a \<Rightarrow>
                Inr (opts, fresh (st\<lparr>arrays := (arrays st)
                  (a := arrays st a @
                     map (\<lambda>fileName. UrlString (public_path wp @ cssAssetFileName wp fileName))
                       (cssAssets wp))\<rparr>)))
         else Inr (opts, fresh st))"

text \<open>
  The executor of one promise of bootstrap. An exception thrown inside an executor
  rejects its promise.
\<close>

definition bootstrap_one :: "opts \<Rightarrow> css_url \<Rightarrow> state \<Rightarrow> nat \<times> state" where
  "bootstrap_one opts cssUrl st =
     (let url = fst (extractUrl opts cssUrl) in
      case querySelector_preload (doc st) url of
        Inl e \<Rightarrow> new_promise (Rejected e) st
      | Inr (Some preloadEl) \<Rightarrow> new_promise Fulfilled st
      | Inr None \<Rightarrow>
          (let linkEl = new_link (next_id st)
                          \<lparr>rel_attr = Some ''preload'', as_attr = Some ''style'',
                           href_attr = Some url\<rparr>
           in new_promise Fulfilled
                (st\<lparr>next_id := Suc (next_id st), doc := appendChild_head (doc st) linkEl\<rparr>)))"

text \<open>
  \<open>allCssUrls.map\<close> throws a TypeError, synchronously, when \<open>allCssUrls\<close> is no
  array. The result of a lifecycle function is the list of the promises given to
  \<open>Promise.all\<close>.
\<close>

definition bootstrap :: "opts \<Rightarrow> state \<Rightarrow> error + (nat list \<times> state)" where
  "bootstrap opts st =
     (case cssUrls opts of
        NotArr v \<Rightarrow> Inl TypeError
      | Arr a \<Rightarrow> Inr (map_promises (bootstrap_one opts) (arrays st a) st))"

text \<open>
  The part of the executor of mount that runs once the factory has returned its element.
\<close>

definition insert_link :: "string \<Rightarrow> jsval \<Rightarrow> link_attrs \<Rightarrow> state \<Rightarrow> nat \<times> state" where
  "insert_link url unmountFlag a st =
     (let linkEl = new_link (next_id st) a;
          (p, st1) = new_promise Pending (st\<lparr>next_id := Suc (next_id st)\<rparr>);
          st2 = st1\<lparr>listeners := listeners st1 @ [(nid linkEl, ''load'', p)]\<rparr>;
          st3 = st2\<lparr>linkElements := (linkElements st2)(url \<mapsto> linkEl)\<rparr>;
          st4 = st3\<lparr>doc := appendChild_head (doc st3) linkEl\<rparr>;
          st5 = (if truthy unmountFlag
                 then st4\<lparr>linkElementsToUnmount :=
                            linkElementsToUnmount st4 @ [(linkEl, url)]\<rparr>
                 else st4)
      in (p, st5))"

text \<open>
  The method call \<open>opts.createLink(url)\<close>: a TypeError when \<open>createLink\<close> is
  undefined, otherwise what the function does on the merged options and the URL.
\<close>

definition call_createLink :: "opts \<Rightarrow> string \<Rightarrow> error + link_attrs" where
  "call_createLink opts url =
     (case createLink opts of
        FUndefined \<Rightarrow> Inl TypeError
      | FFun f \<Rightarrow> f (this_of opts) url)"

text \<open>
  The executor of one promise of mount. The promise is rejected when \<open>querySelector\<close>
  throws and when the call of the factory throws.
\<close>

definition mount_one :: "opts \<Rightarrow> css_url \<Rightarrow> state \<Rightarrow> nat \<times> state" where
  "mount_one opts cssUrl st =
     (let (url, unmountFlag) = extractUrl opts cssUrl in
      case querySelector_stylesheet (doc st) url of
        Inl e \<Rightarrow> new_promise (Rejected e) st
      | Inr (Some existingLinkEl) \<Rightarrow>
          new_promise Fulfilled (st\<lparr>linkElements := (linkElements st)(url \<mapsto> existingLinkEl)\<rparr>)
      | Inr None \<Rightarrow>
          (case call_createLink opts url of
             Inl e \<Rightarrow> new_promise (Rejected e) st
           | Inr a \<Rightarrow> insert_link url unmountFlag a st))"

definition mount :: "opts \<Rightarrow> state \<Rightarrow> error + (nat list \<times> state)" where
  "mount opts st =
     (case cssUrls opts of
        NotArr v \<Rightarrow> Inl TypeError
      | Arr a \<Rightarrow> Inr (map_promises (mount_one opts) (arrays st a) st))"

text \<open>\<open>Promise.resolve().then(...)\<close>: a pending promise and a queued microtask.\<close>

definition schedule_removal :: "node \<times> string \<Rightarrow> state \<Rightarrow> nat \<times> state" where
  "schedule_removal e st =
     (let (p, st1) = new_promise Pending st
      in (p, st1\<lparr>microtasks := microtasks st1 @ [RemoveLink (fst e) (snd e) p]\<rparr>))"

definition unmount :: "opts \<Rightarrow> state \<Rightarrow> nat list \<times> state" where
  "unmount opts st =
     (let elements = linkElementsToUnmount st;
          st1 = st\<lparr>linkElementsToUnmount := []\<rparr>
      in map_promises schedule_removal elements st1)"

section \<open>The event loop\<close>

text \<open>The element and URL a queued microtask was created for.\<close>

fun task_target :: "task \<Rightarrow> node \<times> string" where
  "task_target (RemoveLink linkEl url p) = (linkEl, url)"

fun task_promise :: "task \<Rightarrow> nat" where
  "task_promise (RemoveLink linkEl url p) = p"

text \<open>The body of the callback that unmount passes to \<open>then\<close>.\<close>

fun run_task :: "task \<Rightarrow> state \<Rightarrow> state" where
  "run_task (RemoveLink linkEl url p) st =
     (let st1 = st\<lparr>linkElements := (linkElements st)(url := None)\<rparr>;
          st2 = (if has_parent (doc st1) linkEl
                 then st1\<lparr>doc := removeChild (doc st1) linkEl\<rparr> else st1)
      in st2\<lparr>promises := settle p Fulfilled (promises st2)\<rparr>)"

definition run_microtask :: "state \<Rightarrow> state" where
  "run_microtask st =
     (case microtasks st of
        [] \<Rightarrow> st
      | t # ts \<Rightarrow> run_task t (st\<lparr>microtasks := ts\<rparr>))"

text \<open>Running the microtask queue until it is empty; no task queues another.\<close>

definition drain :: "state \<Rightarrow> state" where
  "drain st = fold run_task (microtasks st) (st\<lparr>microtasks := []\<rparr>)"

text \<open>
  The platform dispatches an event of the given type on an element: every listener
  registered on that element for that type runs. All listeners the adapter registers
  resolve a promise.
\<close>

definition dispatchEvent :: "nat \<Rightarrow> string \<Rightarrow> state \<Rightarrow> state" where
  "dispatchEvent n ty st =
     st\<lparr>promises :=
          fold (\<lambda>l ps. settle (snd (snd l)) Fulfilled ps)
            (filter (\<lambda>l. fst l = n \<and> fst (snd l) = ty) (listeners st)) (promises st)\<rparr>"

text \<open>
  What can happen to an adapter after construction: the orchestrator calls a lifecycle
  function (a thrown TypeError leaves the state as it was, since nothing is changed
  before \<open>map\<close> is called), a microtask runs, or the platform dispatches an event.
\<close>

datatype event = Bootstrap | Mount | Unmount | Microtask | Dispatch nat string

fun step :: "opts \<Rightarrow> event \<Rightarrow> state \<Rightarrow> state" where
  "step opts Bootstrap st = (case bootstrap opts st of Inl e \<Rightarrow> st | Inr r \<Rightarrow> snd r)"
| "step opts Mount st = (case mount opts st of Inl e \<Rightarrow> st | Inr r \<Rightarrow> snd r)"
| "step opts Unmount st = snd (unmount opts st)"
| "step opts Microtask st = run_microtask st"
| "step opts (Dispatch n ty) st = dispatchEvent n ty st"

definition run :: "opts \<Rightarrow> event list \<Rightarrow> state \<Rightarrow> state" where
  "run opts evs st = fold (step opts) evs st"

section \<open>Well-formed states and invariants\<close>

text \<open>
  Element identities are allocated from \<open>next_id\<close>: in a well-formed state every
  element of the document has a smaller identity, so that a created element is new.
\<close>

definition ids_fresh :: "state \<Rightarrow> bool" where
  "ids_fresh st \<longleftrightarrow> (\<forall>m \<in> set (all_nodes (doc st)). nid m < next_id st)"

text \<open>
  Promises are allocated from the end of \<open>promises\<close>: in a well-formed state every
  listener and every queued microtask refers to a promise that exists.
\<close>

definition promises_allocated :: "state \<Rightarrow> bool" where
  "promises_allocated s \<longleftrightarrow>
     (\<forall>l \<in> set (listeners s). snd (snd l) < length (promises s)) \<and>
     (\<forall>t \<in> set (microtasks s). task_promise t < length (promises s))"

text \<open>
  What the pending-unmount queue may hold, relative to the state \<open>st\<close> the adapter
  started in: an element created after \<open>st\<close>, returned by the call of the factory for
  the URL it is queued under, where some reference of the configured list has that URL and a truthy
  flag. \<open>queue_inv\<close> is the invariant that carries this through a run.
\<close>

definition created_and_flagged :: "opts \<Rightarrow> state \<Rightarrow> node \<times> string \<Rightarrow> bool" where
  "created_and_flagged opts st e \<longleftrightarrow>
     next_id st \<le> nid (fst e) \<and>
     (case call_createLink opts (snd e) of
        Inr a \<Rightarrow> fst e = new_link (nid (fst e)) a
      | Inl x \<Rightarrow> False) \<and>
     (case cssUrls opts of
        Arr a \<Rightarrow> (\<exists>r \<in> set (arrays st a).
                    fst (extractUrl opts r) = snd e \<and> truthy (snd (extractUrl opts r)))
      | NotArr v \<Rightarrow> False)"

definition queue_inv :: "opts \<Rightarrow> state \<Rightarrow> state \<Rightarrow> bool" where
  "queue_inv opts st s \<longleftrightarrow>
     arrays s = arrays st \<and> next_id st \<le> next_id s \<and>
     (\<forall>e \<in> set (linkElementsToUnmount s). created_and_flagged opts st e)"

text \<open>
  The promise \<open>p\<close> is pending and can only be resolved by a \<open>load\<close> listener on the
  element \<open>k\<close>: any listener resolving \<open>p\<close> is that one, and no microtask settles
  \<open>p\<close>. \<open>created_for\<close> adds that the listener and the element \<open>n\<close> are there;
  \<open>promises_advance\<close> relates the promises of a state to those of a later state;
  \<open>unrejected\<close> says that none of the given promises is rejected.
\<close>

definition awaiting_load :: "nat \<Rightarrow> nat \<Rightarrow> state \<Rightarrow> bool" where
  "awaiting_load p k s \<longleftrightarrow>
     promises_allocated s \<and> p < length (promises s) \<and> promises s ! p = Pending \<and>
     (\<forall>l \<in> set (listeners s). snd (snd l) = p \<longrightarrow> l = (k, ''load'', p)) \<and>
     (\<forall>t \<in> set (microtasks s). task_promise t \<noteq> p)"

definition created_for :: "nat \<Rightarrow> nat \<Rightarrow> node \<Rightarrow> state \<Rightarrow> bool" where
  "created_for p k n s \<longleftrightarrow>
     awaiting_load p k s \<and> (k, ''load'', p) \<in> set (listeners s) \<and> n \<in> set (head_nodes (doc s))"

definition promises_advance :: "pstate list \<Rightarrow> pstate list \<Rightarrow> bool" where
  "promises_advance ps ps' \<longleftrightarrow>
     length ps \<le> length ps' \<and>
     (\<forall>q < length ps. ps' ! q = ps ! q \<or> (ps ! q = Pending \<and> ps' ! q = Fulfilled))"

definition is_rejected :: "pstate \<Rightarrow> bool" where
  "is_rejected v = (case v of Rejected e \<Rightarrow> True | Pending \<Rightarrow> False | Fulfilled \<Rightarrow> False)"

definition unrejected :: "nat list \<Rightarrow> state \<Rightarrow> bool" where
  "unrejected ps s \<longleftrightarrow>
     (\<forall>q \<in> set ps. q < length (promises s) \<and> \<not> is_rejected (promises s ! q))"



text \<open>
  \<open>timeout_blind\<close>: the factory returns the same whatever the timeout of the options it
  is called on.
\<close>

definition timeout_blind :: "factory \<Rightarrow> bool" where
  "timeout_blind c \<longleftrightarrow>
     (case c of
        FUndefined \<Rightarrow> True
      | FFun f \<Rightarrow> (\<forall>this t url. f (this\<lparr>this_timeout := t\<rparr>) url = f this url))"





section \<open>Concrete configurations and states\<close>

text \<open>A caller's object with no own property, and a page with nothing in it.\<close>

definition no_opts :: raw_opts where
  "no_opts = \<lparr>r_cssUrls = None, r_webpackExtractedCss = None, r_timeout = None,
              r_shouldUnmount = None, r_createLink = None\<rparr>"

definition initial_state :: state where
  "initial_state =
     \<lparr>arrays = (\<lambda>a. []),
      doc = \<lparr>head_nodes = [], body_nodes = [], foreign = (\<lambda>s. None)\<rparr>,
      next_id = 0, promises = [], listeners = [], microtasks = [],
      linkElements = Map.empty, linkElementsToUnmount = []\<rparr>"

text \<open>The webpack plugin exposing one extracted asset.\<close>

definition example_webpack :: webpack where
  "example_webpack = \<lparr>cssAssets = [''main.css''], public_path = ''/'', cssAssetFileName = id\<rparr>"

text \<open>The caller's array \<open>["a.css"]\<close> at address 1.\<close>

definition caller_state :: state where
  "caller_state = initial_state\<lparr>arrays := (\<lambda>a. [])(1 := [UrlString ''a.css''])\<rparr>"

text \<open>The state after mounting \<open>["a.css"]\<close> with the default options on the empty page.\<close>

definition mounted_state :: state where
  "mounted_state =
     caller_state
       \<lparr>doc := \<lparr>head_nodes = [new_link 0 (stylesheet_attrs ''a.css'')], body_nodes = [],
                 foreign = (\<lambda>s. None)\<rparr>,
        next_id := 1, promises := [Pending], listeners := [(0, ''load'', 0)],
        linkElements := [''a.css'' \<mapsto> new_link 0 (stylesheet_attrs ''a.css'')],
        linkElementsToUnmount := [(new_link 0 (stylesheet_attrs ''a.css''), ''a.css'')]\<rparr>"

text \<open>The default options over the caller's array at address 1.\<close>

definition example_opts :: opts where
  "example_opts = defaultOptions\<lparr>cssUrls := Arr 1\<rparr>"

text \<open>
  The caller's array \<open>["a.css", {href: "a.css", shouldUnmount: false}]\<close> at address 1,
  on the empty page.
\<close>

definition mixed_state :: state where
  "mixed_state =
     initial_state\<lparr>arrays := (\<lambda>a. [])
       (1 := [UrlString ''a.css'', UrlRecord ''a.css'' (Some (JBool False))])\<rparr>"

text \<open>The caller's array \<open>[{href: "b.css", shouldUnmount: undefined}]\<close> at address 1.\<close>

definition undefined_flag_state :: state where
  "undefined_flag_state =
     initial_state\<lparr>arrays := (\<lambda>a. [])(1 := [UrlRecord ''b.css'' (Some JUndefined)])\<rparr>"







text \<open>
  A URL with a line feed in it, and the caller's array \<open>["a.css", "x\ny.css"]\<close> on the
  empty page.
\<close>

definition newline_url :: string where
  "newline_url = ''x'' @ [CHR 0x0A] @ ''y.css''"

definition newline_state :: state where
  "newline_state =
     initial_state\<lparr>arrays := (\<lambda>a. [])(1 := [UrlString ''a.css'', UrlString newline_url])\<rparr>"

text \<open>
  A factory that throws when asked for \<open>b.css\<close>, and the caller's array
  \<open>["a.css", "b.css"]\<close> on the empty page.
\<close>

definition throwing_opts :: opts where
  "throwing_opts =
     defaultOptions
       \<lparr>cssUrls := Arr 1,
        createLink := FFun (\<lambda>this url.
          if url = ''b.css'' then Inl (Thrown (JStr ''no link''))
          else Inr (stylesheet_attrs url))\<rparr>"

definition two_url_state :: state where
  "two_url_state =
     initial_state\<lparr>arrays := (\<lambda>a. [])(1 := [UrlString ''a.css'', UrlString ''b.css''])\<rparr>"

text \<open>
  A factory written as a method, \<open>createLink(url) { ... this.timeout ... }\<close>: it builds
  the link for \<open>x.css\<close> when the timeout of the options is 1, and for the URL otherwise.
\<close>

definition timeout_opts :: opts where
  "timeout_opts =
     defaultOptions
       \<lparr>cssUrls := Arr 1,
        createLink := FFun (\<lambda>this url.
          Inr (stylesheet_attrs (if this_timeout this = JNum 1 then ''x.css'' else url)))\<rparr>"

section \<open>Basic facts\<close>

lemma new_promise_simps [simp]:
  "fst (new_promise v st) = length (promises st)"
  "snd (new_promise v st) = st\<lparr>promises := promises st @ [v]\<rparr>"
  by (simp_all add: new_promise_def)

lemma map_promises_snd_Cons:
  "snd (map_promises f (x # xs) st) = snd (map_promises f xs (snd (f x st)))"
  by (simp add: split_beta Let_def)

lemma map_promises_fst_Cons:
  "fst (map_promises f (x # xs) st) = fst (f x st) # fst (map_promises f xs (snd (f x st)))"
  by (simp add: split_beta Let_def)

section \<open>Selectors for plain URLs\<close>

lemmas css_defs =
  href_tail_def dq_def plain_step_def is_hex_def hex_value_def is_css_space_def
  escaped_code_point_def filter_code_point_def

lemma filter_code_points_plain:
  "c \<notin> {0, 12, 13} \<Longrightarrow> filter_code_points (c # cs) = c # filter_code_points cs"
  by (cases cs) (auto simp: filter_code_point_def)

lemma scan_plain:
  assumes "\<forall>c \<in> set cs. c \<notin> {0, 10, 12, 13, 34, 92}"
  shows "foldl scan_step (InString acc) (filter_code_points (cs @ [34, 93])) =
           Closed (acc @ cs) [93]"
  using assms
proof (induction cs arbitrary: acc)
  case Nil
  show ?case by (simp add: plain_step_def filter_code_point_def)
next
  case (Cons c cs)
  have "filter_code_points ((c # cs) @ [34, 93]) = c # filter_code_points (cs @ [34, 93])"
    using Cons.prems filter_code_points_plain [of c "cs @ [34, 93]"] by simp
  moreover have "scan_step (InString acc) c = InString (acc @ [c])"
    using Cons.prems by (simp add: plain_step_def)
  ultimately show ?case
    using Cons.IH [of "acc @ [c]"] Cons.prems by simp
qed

lemma href_tail_plain:
  assumes "css_plain url"
  shows "href_tail url = HrefValue (map of_char url)"
proof -
  have "\<forall>c \<in> set (map of_char url :: nat list). c \<notin> {0, 10, 12, 13, 34, 92}"
    using assms by (auto simp: css_plain_def)
  then have "foldl scan_step (InString []) (filter_code_points (map of_char url @ [34, 93])) =
      Closed ([] @ map of_char url) [93]"
    by (rule scan_plain)
  then show ?thesis by (simp add: href_tail_def dq_def)
qed

lemma href_is_of_char: "href_is (map of_char url) n \<longleftrightarrow> href_attr (attrs n) = Some url"
  by (auto simp: href_is_def inj_map_eq_map [OF inj_of_char] split: option.splits)

lemma querySelector_stylesheet_plain:
  assumes "css_plain url"
  shows "querySelector_stylesheet d url = Inr (find (matches_stylesheet url) (all_nodes d))"
proof -
  have "(\<lambda>n. stylesheet_link n \<and> href_is (map of_char url) n) = matches_stylesheet url"
    by (rule ext) (simp add: matches_stylesheet_def href_is_of_char)
  then show ?thesis
    by (simp add: querySelector_stylesheet_def query_def href_tail_plain [OF assms])
qed

lemma css_plain_a: "css_plain ''a.css''"
  by (simp add: css_plain_def)


section \<open>The URL extractor\<close>

text \<open>
  C6: for a bare string the extractor returns the string and the configuration-level
  flag; for a record with an own property shouldUnmount it returns the href and that
  property's value; for a record without the property it returns the href and the
  configuration-level flag.
\<close>

theorem extractUrl_shapes:
  "extractUrl opts (UrlString s) = (s, shouldUnmount opts) \<and>
   extractUrl opts (UrlRecord h (Some v)) = (h, v) \<and>
   extractUrl opts (UrlRecord h None) = (h, shouldUnmount opts)"
  by (simp add: extractUrl_def)

lemma mount_one_queue_falsy:
  "\<not> truthy (snd (extractUrl opts r)) \<Longrightarrow>
   linkElementsToUnmount (snd (mount_one opts r st)) = linkElementsToUnmount st"
  by (auto simp: mount_one_def insert_link_def new_promise_def Let_def
      split: prod.splits option.splits factory.splits sum.splits)

section \<open>Option resolution and construction\<close>

text \<open>
  C8: when the caller's object has the own property cssUrls and no other, the merged
  options are the given cssUrls with webpackExtractedCss false, timeout 5000,
  shouldUnmount true and the default factory; construction returns them; and the
  default factory, whatever the options it is called on, returns a link element with rel
  "stylesheet" and the given href, that is, a stylesheet link for the URL.
\<close>

theorem option_resolver_defaults:
  "assign_opts defaultOptions (Object (no_opts\<lparr>r_cssUrls := Some v\<rparr>)) =
     \<lparr>cssUrls = v, webpackExtractedCss = JBool False, timeout = JNum 5000,
      shouldUnmount = JBool True, createLink = FFun default_createLink\<rparr> \<and>
   singleSpaCss wp (Object (no_opts\<lparr>r_cssUrls := Some v\<rparr>)) st =
     Inr (\<lparr>cssUrls = v, webpackExtractedCss = JBool False, timeout = JNum 5000,
           shouldUnmount = JBool True, createLink = FFun default_createLink\<rparr>,
          st\<lparr>linkElements := Map.empty, linkElementsToUnmount := []\<rparr>) \<and>
   default_createLink this url =
     Inr \<lparr>rel_attr = Some ''stylesheet'', as_attr = None, href_attr = Some url\<rparr> \<and>
   new_link k \<lparr>rel_attr = Some ''stylesheet'', as_attr = None, href_attr = Some url\<rparr> =
     \<lparr>nid = k, tag_name = ''link'',
      attrs = \<lparr>rel_attr = Some ''stylesheet'', as_attr = None, href_attr = Some url\<rparr>\<rparr> \<and>
   matches_stylesheet url
     (new_link k \<lparr>rel_attr = Some ''stylesheet'', as_attr = None, href_attr = Some url\<rparr>)"
  by (simp add: defaultOptions_def override_def singleSpaCss_def default_createLink_def
      stylesheet_attrs_def matches_stylesheet_def stylesheet_link_def rel_is_def
      ascii_lower_def no_opts_def new_link_def)

text \<open>
  C5, at the input \<open>{cssUrls: ["a.css"], webpackExtractedCss: true}\<close> with one
  extracted asset: construction succeeds, the merged options hold the caller's own array
  (address 1), and that array has been extended in place.
\<close>

theorem construction_extends_caller_array:
  "arrays caller_state 1 = [UrlString ''a.css''] \<and>
   (case singleSpaCss example_webpack
           (Object (no_opts\<lparr>r_cssUrls := Some (Arr 1),
                            r_webpackExtractedCss := Some (JBool True)\<rparr>)) caller_state of
      Inl e \<Rightarrow> False
    | Inr (opts, st) \<Rightarrow>
        cssUrls opts = Arr 1 \<and>
        arrays st 1 = [UrlString ''a.css'', UrlString ''/main.css''])"
  by (simp add: singleSpaCss_def caller_state_def initial_state_def example_webpack_def
      no_opts_def defaultOptions_def override_def)

text \<open>
  C7, refuted: with \<open>null\<close> in place of the configuration object, and with the
  string \<open>"a.css"\<close> in place of the cssUrls array, construction raises nothing and
  returns an adapter.
\<close>

theorem construction_accepts_malformed_input:
  "singleSpaCss example_webpack (NotObject JNull) initial_state =
     Inr (defaultOptions, initial_state) \<and>
   singleSpaCss example_webpack
     (Object (no_opts\<lparr>r_cssUrls := Some (NotArr (JStr ''a.css''))\<rparr>)) initial_state =
     Inr (defaultOptions\<lparr>cssUrls := NotArr (JStr ''a.css'')\<rparr>, initial_state)"
  by (simp add: singleSpaCss_def initial_state_def no_opts_def defaultOptions_def override_def)

text \<open>
  C7, amended: construction validates nothing. An input that is not an object is
  treated as an empty configuration: construction succeeds with the defaults. A cssUrls
  value that is not an array is stored as given; construction succeeds when
  webpackExtractedCss is falsy, and throws a TypeError when it is truthy. With such
  options bootstrap and mount throw a TypeError synchronously. In every case the
  document is untouched.
\<close>

theorem construction_validates_nothing:
  "singleSpaCss wp (NotObject v) st =
     Inr (defaultOptions, st\<lparr>linkElements := Map.empty, linkElementsToUnmount := []\<rparr>) \<and>
   (r_cssUrls r = Some (NotArr v) \<longrightarrow>
      (\<not> truthy (webpackExtractedCss (assign_opts defaultOptions (Object r))) \<longrightarrow>
         singleSpaCss wp (Object r) st =
           Inr (assign_opts defaultOptions (Object r),
                st\<lparr>linkElements := Map.empty, linkElementsToUnmount := []\<rparr>)) \<and>
      (truthy (webpackExtractedCss (assign_opts defaultOptions (Object r))) \<longrightarrow>
         singleSpaCss wp (Object r) st = Inl TypeError) \<and>
      bootstrap (assign_opts defaultOptions (Object r)) st = Inl TypeError \<and>
      mount (assign_opts defaultOptions (Object r)) st = Inl TypeError) \<and>
   (\<forall>opts st'. singleSpaCss wp inp st = Inr (opts, st') \<longrightarrow> doc st' = doc st)"
  by (auto simp: singleSpaCss_def defaultOptions_def override_def bootstrap_def mount_def
      Let_def split: css_urls_val.splits if_splits)

theorem construction_validates_nothing_witness:
  "r_cssUrls (no_opts\<lparr>r_cssUrls := Some (NotArr (JStr ''a.css''))\<rparr>) =
     Some (NotArr (JStr ''a.css'')) \<and>
   \<not> truthy (webpackExtractedCss (assign_opts defaultOptions
        (Object (no_opts\<lparr>r_cssUrls := Some (NotArr (JStr ''a.css''))\<rparr>)))) \<and>
   singleSpaCss example_webpack
     (Object (no_opts\<lparr>r_cssUrls := Some (NotArr (JStr ''a.css''))\<rparr>)) initial_state =
     Inr (assign_opts defaultOptions
            (Object (no_opts\<lparr>r_cssUrls := Some (NotArr (JStr ''a.css''))\<rparr>)),
          initial_state\<lparr>linkElements := Map.empty, linkElementsToUnmount := []\<rparr>) \<and>
   mount (assign_opts defaultOptions
            (Object (no_opts\<lparr>r_cssUrls := Some (NotArr (JStr ''a.css''))\<rparr>))) initial_state =
     Inl TypeError \<and>
   truthy (webpackExtractedCss (assign_opts defaultOptions
        (Object (no_opts\<lparr>r_cssUrls := Some (NotArr (JStr ''a.css'')),
                         r_webpackExtractedCss := Some (JBool True)\<rparr>)))) \<and>
   singleSpaCss example_webpack
     (Object (no_opts\<lparr>r_cssUrls := Some (NotArr (JStr ''a.css'')),
                      r_webpackExtractedCss := Some (JBool True)\<rparr>)) initial_state =
     Inl TypeError"
  using construction_validates_nothing
    [where wp = example_webpack and v = "JStr ''a.css''" and st = initial_state
       and r = "no_opts\<lparr>r_cssUrls := Some (NotArr (JStr ''a.css''))\<rparr>"]
    construction_validates_nothing
    [where wp = example_webpack and v = "JStr ''a.css''" and st = initial_state
       and r = "no_opts\<lparr>r_cssUrls := Some (NotArr (JStr ''a.css'')),
                 r_webpackExtractedCss := Some (JBool True)\<rparr>"]
  by (simp add: no_opts_def defaultOptions_def override_def)

section \<open>The timeout\<close>

lemma this_of_timeout: "this_of (opts\<lparr>timeout := t\<rparr>) = (this_of opts)\<lparr>this_timeout := t\<rparr>"
  by (simp add: this_of_def)

lemma extractUrl_timeout: "extractUrl (opts\<lparr>timeout := t\<rparr>) = extractUrl opts"
  by (rule ext) (simp add: extractUrl_def split: css_url.splits option.splits)

lemma bootstrap_timeout: "bootstrap (opts\<lparr>timeout := t\<rparr>) st = bootstrap opts st"
proof -
  have "bootstrap_one (opts\<lparr>timeout := t\<rparr>) = bootstrap_one opts"
    by (rule ext)+ (simp add: bootstrap_one_def extractUrl_timeout)
  then show ?thesis
    by (simp add: bootstrap_def split: css_urls_val.splits)
qed

lemma unmount_timeout: "unmount (opts\<lparr>timeout := t\<rparr>) st = unmount opts st"
  by (simp add: unmount_def)

lemma mount_timeout:
  assumes "timeout_blind (createLink opts)"
  shows "mount (opts\<lparr>timeout := t\<rparr>) st = mount opts st"
proof -
  have "call_createLink (opts\<lparr>timeout := t\<rparr>) = call_createLink opts"
    using assms
    by (intro ext)
       (simp add: call_createLink_def this_of_timeout timeout_blind_def split: factory.splits)
  then have "mount_one (opts\<lparr>timeout := t\<rparr>) = mount_one opts"
    by (intro ext)
       (simp add: mount_one_def extractUrl_timeout split: prod.splits sum.splits option.splits)
  then show ?thesis
    by (simp add: mount_def split: css_urls_val.splits)
qed

lemma step_timeout:
  "timeout_blind (createLink opts) \<Longrightarrow> step (opts\<lparr>timeout := t\<rparr>) ev st = step opts ev st"
  by (cases ev) (simp_all add: bootstrap_timeout mount_timeout unmount_timeout)

lemma run_timeout:
  "timeout_blind (createLink opts) \<Longrightarrow> run (opts\<lparr>timeout := t\<rparr>) evs st = run opts evs st"
  unfolding run_def by (induction evs arbitrary: st) (simp_all add: step_timeout)

lemma construction_timeout:
  "singleSpaCss wp (Object (r\<lparr>r_timeout := t2\<rparr>)) st =
     (case singleSpaCss wp (Object (r\<lparr>r_timeout := t1\<rparr>)) st of
        Inl e \<Rightarrow> Inl e
      | Inr (opts, st') \<Rightarrow> Inr (opts\<lparr>timeout := override (timeout defaultOptions) t2\<rparr>, st'))"
  by (simp add: singleSpaCss_def Let_def split: css_urls_val.splits)

lemma default_factory_timeout_blind: "timeout_blind (FFun default_createLink)"
  by (simp add: timeout_blind_def default_createLink_def)

text \<open>
  C9, refuted: with a factory written as a method that reads \<open>this.timeout\<close>, two
  options that differ only in the timeout (5000 and 1) mount \<open>["a.css"]\<close> on the empty
  page to different documents: one inserts the link for \<open>a.css\<close>, the other the link
  for \<open>x.css\<close>.
\<close>

theorem timeout_reaches_the_factory:
  "(timeout_opts\<lparr>timeout := JNum 1\<rparr>)\<lparr>timeout := timeout timeout_opts\<rparr> = timeout_opts \<and>
   \<not> isl (mount timeout_opts caller_state) \<and>
   \<not> isl (mount (timeout_opts\<lparr>timeout := JNum 1\<rparr>) caller_state) \<and>
   head_nodes (doc (snd (projr (mount timeout_opts caller_state)))) =
     [new_link 0 (stylesheet_attrs ''a.css'')] \<and>
   head_nodes (doc (snd (projr (mount (timeout_opts\<lparr>timeout := JNum 1\<rparr>) caller_state)))) =
     [new_link 0 (stylesheet_attrs ''x.css'')]"
  by (simp add: mount_def timeout_opts_def defaultOptions_def caller_state_def
      initial_state_def mount_one_def insert_link_def extractUrl_def this_of_def
      call_createLink_def querySelector_stylesheet_plain css_plain_a all_nodes_def
      appendChild_head_def new_promise_def Let_def)

text \<open>
  C9, amended: options that differ only in the timeout give the same result and the same
  state for bootstrap and for unmount; they give the same for mount, and for every
  sequence of lifecycle calls, microtasks and dispatched events, when the configured
  factory returns the same whatever the timeout of the options it is called on, as the
  default factory does. Two configurations that differ only in the timeout construct
  adapters that differ only in the stored timeout (or fail alike).
\<close>

theorem timeout_never_consulted:
  "bootstrap (opts\<lparr>timeout := t\<rparr>) st = bootstrap opts st \<and>
   unmount (opts\<lparr>timeout := t\<rparr>) st = unmount opts st \<and>
   (timeout_blind (createLink opts) \<longrightarrow>
      mount (opts\<lparr>timeout := t\<rparr>) st = mount opts st \<and>
      run (opts\<lparr>timeout := t\<rparr>) evs st = run opts evs st) \<and>
   timeout_blind (FFun default_createLink) \<and>
   singleSpaCss wp (Object (r\<lparr>r_timeout := t2\<rparr>)) st =
     (case singleSpaCss wp (Object (r\<lparr>r_timeout := t1\<rparr>)) st of
        Inl e \<Rightarrow> Inl e
      | Inr (opts', st') \<Rightarrow> Inr (opts'\<lparr>timeout := override (timeout defaultOptions) t2\<rparr>, st'))"
  using bootstrap_timeout [where opts = opts and t = t and st = st]
    unmount_timeout [where opts = opts and t = t and st = st]
    mount_timeout [where opts = opts and t = t and st = st]
    run_timeout [where opts = opts and t = t and evs = evs and st = st]
    default_factory_timeout_blind
    construction_timeout [where wp = wp and r = r and ?t2.0 = t2 and st = st and ?t1.0 = t1]
  by simp

theorem timeout_never_consulted_witness:
  "timeout_blind (createLink example_opts) \<and>
   timeout (example_opts\<lparr>timeout := JNum 1\<rparr>) \<noteq> timeout example_opts \<and>
   mount (example_opts\<lparr>timeout := JNum 1\<rparr>) caller_state = mount example_opts caller_state \<and>
   run (example_opts\<lparr>timeout := JNum 1\<rparr>) [Mount, Unmount, Microtask] caller_state =
     run example_opts [Mount, Unmount, Microtask] caller_state"
proof -
  have b: "timeout_blind (createLink example_opts)"
    by (simp add: example_opts_def defaultOptions_def default_factory_timeout_blind)
  have d: "timeout (example_opts\<lparr>timeout := JNum 1\<rparr>) \<noteq> timeout example_opts"
    by (simp add: example_opts_def defaultOptions_def)
  show ?thesis
    using timeout_never_consulted
      [where opts = example_opts and t = "JNum 1" and st = caller_state
         and evs = "[Mount, Unmount, Microtask]"] b d
    by simp
qed

section \<open>Unmount\<close>

lemma schedule_removal_frame:
  "doc (snd (schedule_removal e st)) = doc st"
  "linkElements (snd (schedule_removal e st)) = linkElements st"
  "linkElementsToUnmount (snd (schedule_removal e st)) = linkElementsToUnmount st"
  "map task_target (microtasks (snd (schedule_removal e st))) =
     map task_target (microtasks st) @ [e]"
  by (simp_all add: schedule_removal_def new_promise_def)

lemma schedule_all_frame:
  "doc (snd (map_promises schedule_removal es st)) = doc st \<and>
   linkElements (snd (map_promises schedule_removal es st)) = linkElements st \<and>
   linkElementsToUnmount (snd (map_promises schedule_removal es st)) = linkElementsToUnmount st \<and>
   map task_target (microtasks (snd (map_promises schedule_removal es st))) =
     map task_target (microtasks st) @ es"
proof (induction es arbitrary: st)
  case Nil
  show ?case by simp
next
  case (Cons e es)
  show ?case
    unfolding map_promises_snd_Cons
    by (simp add: Cons.IH schedule_removal_frame)
qed

lemma unmount_empty_queue:
  "linkElementsToUnmount st = [] \<Longrightarrow> unmount opts st = ([], st)"
  by (simp add: unmount_def)

lemma has_parent_removeChild_self: "\<not> has_parent (removeChild d n) n"
  by (auto simp: has_parent_def removeChild_def all_nodes_def)

lemma has_parent_removeChild_other:
  "\<not> has_parent d n \<Longrightarrow> \<not> has_parent (removeChild d m) n"
  by (auto simp: has_parent_def removeChild_def all_nodes_def)

lemma run_task_detached:
  "\<not> has_parent (doc st) n \<Longrightarrow> \<not> has_parent (doc (run_task t st)) n"
  by (cases t) (simp add: Let_def has_parent_removeChild_other)

lemma run_task_detaches:
  "\<not> has_parent (doc (run_task t st)) (fst (task_target t))"
  by (cases t) (simp add: Let_def has_parent_removeChild_self)

lemma fold_run_task_detached:
  "\<not> has_parent (doc st) n \<Longrightarrow> \<not> has_parent (doc (fold run_task ts st)) n"
  by (induction ts arbitrary: st) (simp_all add: run_task_detached)

lemma fold_run_task_detaches:
  "t \<in> set ts \<Longrightarrow> \<not> has_parent (doc (fold run_task ts st)) (fst (task_target t))"
proof (induction ts arbitrary: st)
  case Nil
  then show ?case by simp
next
  case (Cons a ts)
  show ?case
  proof (cases "t = a")
    case True
    then show ?thesis
      by (simp add: fold_run_task_detached run_task_detaches)
  next
    case False
    with Cons show ?thesis by simp
  qed
qed

lemma drain_detaches:
  "e \<in> set (map task_target (microtasks st)) \<Longrightarrow> \<not> has_parent (doc (drain st)) (fst e)"
  unfolding drain_def using fold_run_task_detaches by fastforce

text \<open>
  C2: for every state, the first of two unmount calls in immediate succession leaves
  the queue empty and changes neither the document nor the registry, and it queues one
  removal microtask for each pair that was in the queue, in order; the second call
  returns no promise and leaves the state exactly as the first call left it. Once the
  microtasks have run, none of the elements that were queued is attached.
\<close>

theorem unmount_twice_removes_once:
  "(case unmount opts st of (ps1, st1) \<Rightarrow>
     (case unmount opts st1 of (ps2, st2) \<Rightarrow>
        linkElementsToUnmount st1 = [] \<and>
        doc st1 = doc st \<and> linkElements st1 = linkElements st \<and>
        map task_target (microtasks st1) =
          map task_target (microtasks st) @ linkElementsToUnmount st \<and>
        ps2 = [] \<and> st2 = st1 \<and>
        (\<forall>e \<in> set (linkElementsToUnmount st). \<not> has_parent (doc (drain st2)) (fst e))))"
proof -
  obtain ps1 st1 where u1: "unmount opts st = (ps1, st1)"
    by (cases "unmount opts st")
  have st1: "st1 = snd (map_promises schedule_removal (linkElementsToUnmount st)
                     (st\<lparr>linkElementsToUnmount := []\<rparr>))"
    using u1 by (simp add: unmount_def Let_def)
  have q: "linkElementsToUnmount st1 = []"
    and d: "doc st1 = doc st" and l: "linkElements st1 = linkElements st"
    and m: "map task_target (microtasks st1) =
          map task_target (microtasks st) @ linkElementsToUnmount st"
    unfolding st1 using schedule_all_frame
      [of "linkElementsToUnmount st" "st\<lparr>linkElementsToUnmount := []\<rparr>"] by simp_all
  have u2: "unmount opts st1 = ([], st1)"
    using q by (rule unmount_empty_queue)
  have dr: "\<forall>e \<in> set (linkElementsToUnmount st). \<not> has_parent (doc (drain st1)) (fst e)"
    using drain_detaches [of _ st1] m by simp
  show ?thesis
    using q d l m dr by (simp add: u1 u2)
qed

theorem unmount_twice_removes_once_witness:
  "linkElementsToUnmount mounted_state =
     [(new_link 0 (stylesheet_attrs ''a.css''), ''a.css'')] \<and>
   has_parent (doc mounted_state) (new_link 0 (stylesheet_attrs ''a.css'')) \<and>
   (case unmount defaultOptions mounted_state of (ps1, st1) \<Rightarrow>
     (case unmount defaultOptions st1 of (ps2, st2) \<Rightarrow>
        ps2 = [] \<and> st2 = st1 \<and>
        \<not> has_parent (doc (drain st2)) (new_link 0 (stylesheet_attrs ''a.css''))))"
  using unmount_twice_removes_once [where opts = defaultOptions and st = mounted_state]
  by (simp add: mounted_state_def caller_state_def initial_state_def has_parent_def
      all_nodes_def new_link_def split: prod.splits)

section \<open>Invariants of the executors\<close>

lemma map_promises_invariant:
  assumes "\<And>x s. x \<in> set xs \<Longrightarrow> P s \<Longrightarrow> P (snd (f x s))" and "P st"
  shows "P (snd (map_promises f xs st))"
  using assms
proof (induction xs arbitrary: st)
  case Nil
  then show ?case by simp
next
  case (Cons x xs)
  have "P (snd (f x st))" using Cons.prems by simp
  then have "P (snd (map_promises f xs (snd (f x st))))"
    using Cons.IH Cons.prems(1) by simp
  then show ?case by (simp only: map_promises_snd_Cons)
qed

lemma fold_invariant:
  assumes "\<And>e s. e \<in> set evs \<Longrightarrow> P s \<Longrightarrow> P (g e s)" and "P st"
  shows "P (fold g evs st)"
  using assms by (induction evs arbitrary: st) simp_all

lemma mount_one_threw:
  assumes "querySelector_stylesheet (doc st) (fst (extractUrl opts r)) = Inl e"
  shows "mount_one opts r st =
    (length (promises st), st\<lparr>promises := promises st @ [Rejected e]\<rparr>)"
  using assms by (cases "extractUrl opts r") (simp add: mount_one_def new_promise_def)

lemma mount_one_adopt:
  assumes "querySelector_stylesheet (doc st) (fst (extractUrl opts r)) = Inr (Some el)"
  shows "mount_one opts r st =
    (length (promises st),
     st\<lparr>linkElements := (linkElements st)(fst (extractUrl opts r) \<mapsto> el),
        promises := promises st @ [Fulfilled]\<rparr>)"
  using assms by (cases "extractUrl opts r") (simp add: mount_one_def new_promise_def)

lemma mount_one_failed:
  assumes "querySelector_stylesheet (doc st) (fst (extractUrl opts r)) = Inr None"
    and "call_createLink opts (fst (extractUrl opts r)) = Inl e"
  shows "mount_one opts r st =
    (length (promises st), st\<lparr>promises := promises st @ [Rejected e]\<rparr>)"
  using assms by (cases "extractUrl opts r") (simp add: mount_one_def new_promise_def)

lemma mount_one_create:
  assumes "querySelector_stylesheet (doc st) (fst (extractUrl opts r)) = Inr None"
    and "call_createLink opts (fst (extractUrl opts r)) = Inr a"
  shows "mount_one opts r st =
    (length (promises st),
     st\<lparr>next_id := Suc (next_id st),
        promises := promises st @ [Pending],
        listeners := listeners st @ [(next_id st, ''load'', length (promises st))],
        linkElements := (linkElements st)
          (fst (extractUrl opts r) \<mapsto> new_link (next_id st) a),
        doc := appendChild_head (doc st) (new_link (next_id st) a),
        linkElementsToUnmount := linkElementsToUnmount st @
          (if truthy (snd (extractUrl opts r))
           then [(new_link (next_id st) a, fst (extractUrl opts r))]
           else [])\<rparr>)"
  using assms
  by (cases "extractUrl opts r")
     (simp add: mount_one_def insert_link_def new_promise_def Let_def new_link_def)

text \<open>Unfolding the executor of mount on concrete input with plain URLs.\<close>

lemmas eval_defs =
  mount_def mount_one_def insert_link_def call_createLink_def this_of_def extractUrl_def
  default_createLink_def stylesheet_attrs_def new_link_def appendChild_head_def all_nodes_def
  new_promise_def matches_stylesheet_def stylesheet_link_def rel_is_def ascii_lower_def
  querySelector_stylesheet_plain css_plain_def Let_def

text \<open>
  The three ways an executor of mount ends: it adopts the element the query returns, it
  rejects its promise and changes nothing else (the query threw, or the call of the
  factory threw), or it inserts the element the factory returned.
\<close>

lemma mount_one_cases:
  obtains (adopt) el where
      "querySelector_stylesheet (doc st) (fst (extractUrl opts r)) = Inr (Some el)"
  | (reject) e where
      "mount_one opts r st =
         (length (promises st), st\<lparr>promises := promises st @ [Rejected e]\<rparr>)"
  | (create) a where
      "querySelector_stylesheet (doc st) (fst (extractUrl opts r)) = Inr None"
      "call_createLink opts (fst (extractUrl opts r)) = Inr a"
proof (cases "querySelector_stylesheet (doc st) (fst (extractUrl opts r))")
  case (Inl e)
  then show ?thesis using reject mount_one_threw by blast
next
  case (Inr found)
  show ?thesis
  proof (cases found)
    case (Some el)
    then show ?thesis using Inr adopt by blast
  next
    case None
    show ?thesis
    proof (cases "call_createLink opts (fst (extractUrl opts r))")
      case (Inl e)
      then show ?thesis using Inr None reject mount_one_failed by blast
    next
      case (Inr a)
      then show ?thesis using \<open>querySelector_stylesheet (doc st) (fst (extractUrl opts r)) = Inr found\<close>
          None create by blast
    qed
  qed
qed

lemma bootstrap_one_frame:
  "arrays (snd (bootstrap_one opts r s)) = arrays s"
  "next_id s \<le> next_id (snd (bootstrap_one opts r s))"
  "linkElementsToUnmount (snd (bootstrap_one opts r s)) = linkElementsToUnmount s"
  "listeners (snd (bootstrap_one opts r s)) = listeners s"
  "microtasks (snd (bootstrap_one opts r s)) = microtasks s"
  by (simp_all add: bootstrap_one_def Let_def split: option.splits sum.splits)

lemma bootstrap_one_promises:
  "\<exists>v. promises (snd (bootstrap_one opts r s)) = promises s @ [v]"
  by (simp add: bootstrap_one_def Let_def split: option.splits sum.splits)

lemma queue_inv_bootstrap_one:
  "queue_inv opts st s \<Longrightarrow> queue_inv opts st (snd (bootstrap_one opts r s))"
  using bootstrap_one_frame(2) [of s opts r]
  by (simp add: queue_inv_def bootstrap_one_frame(1,3))

lemma queue_inv_mount_one:
  assumes "queue_inv opts st s" and "cssUrls opts = Arr a" and "r \<in> set (arrays st a)"
  shows "queue_inv opts st (snd (mount_one opts r s))"
proof (cases rule: mount_one_cases [where opts = opts and r = r and st = s])
  case (adopt el)
  then show ?thesis
    using assms(1) by (simp add: mount_one_adopt queue_inv_def)
next
  case (reject e)
  then show ?thesis
    using assms(1) by (simp add: queue_inv_def)
next
  case (create a)
  have "created_and_flagged opts st (new_link (next_id s) a, fst (extractUrl opts r))"
    if "truthy (snd (extractUrl opts r))"
    using that assms create(2)
    by (auto simp: created_and_flagged_def queue_inv_def new_link_def)
  then show ?thesis
    using assms(1) create by (auto simp: mount_one_create queue_inv_def)
qed

lemma schedule_removal_frame2:
  "arrays (snd (schedule_removal e s)) = arrays s"
  "next_id (snd (schedule_removal e s)) = next_id s"
  "listeners (snd (schedule_removal e s)) = listeners s"
  by (simp_all add: schedule_removal_def new_promise_def)

lemma queue_inv_unmount:
  assumes "queue_inv opts st s"
  shows "queue_inv opts st (snd (unmount opts s))"
proof -
  let ?s0 = "s\<lparr>linkElementsToUnmount := []\<rparr>"
  have "queue_inv opts st ?s0"
    using assms by (simp add: queue_inv_def)
  moreover have "queue_inv opts st (snd (schedule_removal e s'))" if "queue_inv opts st s'" for e s'
    using that by (simp add: queue_inv_def schedule_removal_frame2 schedule_removal_frame)
  ultimately have "queue_inv opts st (snd (map_promises schedule_removal (linkElementsToUnmount s) ?s0))"
    by (intro map_promises_invariant [where P = "queue_inv opts st"])
  then show ?thesis by (simp add: unmount_def Let_def)
qed

lemma run_task_frame:
  "arrays (run_task t s) = arrays s"
  "next_id (run_task t s) = next_id s"
  "linkElementsToUnmount (run_task t s) = linkElementsToUnmount s"
  "listeners (run_task t s) = listeners s"
  "microtasks (run_task t s) = microtasks s"
  by (cases t; simp add: Let_def)+

lemma queue_inv_step:
  assumes "queue_inv opts st s"
  shows "queue_inv opts st (step opts ev s)"
proof (cases ev)
  case Bootstrap
  show ?thesis
  proof (cases "cssUrls opts")
    case (Arr a)
    have "queue_inv opts st (snd (map_promises (bootstrap_one opts) (arrays s a) s))"
      using assms queue_inv_bootstrap_one
      by (intro map_promises_invariant [where P = "queue_inv opts st"])
    then show ?thesis using Bootstrap Arr by (simp add: bootstrap_def)
  next
    case (NotArr v)
    then show ?thesis using Bootstrap assms by (simp add: bootstrap_def)
  qed
next
  case Mount
  show ?thesis
  proof (cases "cssUrls opts")
    case (Arr a)
    have eq: "arrays s a = arrays st a" using assms by (simp add: queue_inv_def)
    have "queue_inv opts st (snd (map_promises (mount_one opts) (arrays s a) s))"
      using assms queue_inv_mount_one [OF _ Arr] unfolding eq
      by (intro map_promises_invariant [where P = "queue_inv opts st"])
    then show ?thesis using Mount Arr by (simp add: mount_def)
  next
    case (NotArr v)
    then show ?thesis using Mount assms by (simp add: mount_def)
  qed
next
  case Unmount
  then show ?thesis using assms queue_inv_unmount by simp
next
  case Microtask
  then show ?thesis
    using assms
    by (simp add: run_microtask_def queue_inv_def run_task_frame split: list.splits)
next
  case (Dispatch n ty)
  then show ?thesis
    using assms by (simp add: dispatchEvent_def queue_inv_def)
qed

lemma queue_inv_run:
  assumes "linkElementsToUnmount st = []"
  shows "queue_inv opts st (run opts evs st)"
proof -
  have "queue_inv opts st st" using assms by (simp add: queue_inv_def)
  then show ?thesis
    unfolding run_def using queue_inv_step
    by (intro fold_invariant [where P = "queue_inv opts st"])
qed

lemma mount_one_queue:
  "linkElementsToUnmount (snd (mount_one opts r st)) =
     linkElementsToUnmount st @
       (if querySelector_stylesheet (doc st) (fst (extractUrl opts r)) = Inr None \<and>
           truthy (snd (extractUrl opts r))
        then (case call_createLink opts (fst (extractUrl opts r)) of
                Inr a \<Rightarrow> [(new_link (next_id st) a, fst (extractUrl opts r))]
              | Inl e \<Rightarrow> [])
        else [])"
proof (cases "querySelector_stylesheet (doc st) (fst (extractUrl opts r))")
  case (Inl e)
  then show ?thesis by (simp add: mount_one_threw)
next
  case (Inr found)
  show ?thesis
  proof (cases found)
    case (Some el)
    then show ?thesis using Inr by (simp add: mount_one_adopt)
  next
    case None
    then show ?thesis
      using Inr
      by (cases "call_createLink opts (fst (extractUrl opts r))")
         (simp_all add: mount_one_failed mount_one_create)
  qed
qed

section \<open>What the pending-unmount queue holds\<close>

text \<open>
  C4: starting from an empty queue (as construction leaves it), after every sequence of
  lifecycle calls, microtasks and dispatched events each entry of the pending-unmount
  queue is an element created after the start, returned by the call of the factory for
  the URL it is queued under, and some reference of the configured list has that URL and a truthy
  flag; in a well-formed state that element was not in the document at the start; and
  where the list holds an explicit-false record for the entry's URL, a different
  reference accounts for the entry. The executor of mount appends an entry exactly when
  the document query returns null, the flag is truthy and the call of the factory
  returns an element, and the entry is that element with the URL. For a record with
  shouldUnmount false the executor leaves the queue as it was, whatever the options.
\<close>

theorem queue_holds_only_created_and_flagged:
  "(linkElementsToUnmount st = [] \<longrightarrow>
      (\<forall>e \<in> set (linkElementsToUnmount (run opts evs st)).
          created_and_flagged opts st e \<and>
          (ids_fresh st \<longrightarrow> fst e \<notin> set (all_nodes (doc st))) \<and>
          (\<forall>a. cssUrls opts = Arr a \<longrightarrow>
               UrlRecord (snd e) (Some (JBool False)) \<in> set (arrays st a) \<longrightarrow>
               (\<exists>r \<in> set (arrays st a). r \<noteq> UrlRecord (snd e) (Some (JBool False)) \<and>
                   fst (extractUrl opts r) = snd e \<and> truthy (snd (extractUrl opts r)))))) \<and>
   linkElementsToUnmount (snd (mount_one opts r st)) =
     linkElementsToUnmount st @
       (if querySelector_stylesheet (doc st) (fst (extractUrl opts r)) = Inr None \<and>
           truthy (snd (extractUrl opts r))
        then (case call_createLink opts (fst (extractUrl opts r)) of
                Inr a \<Rightarrow> [(new_link (next_id st) a, fst (extractUrl opts r))]
              | Inl e \<Rightarrow> [])
        else []) \<and>
   linkElementsToUnmount (snd (mount_one opts (UrlRecord h (Some (JBool False))) st)) =
     linkElementsToUnmount st"
proof -
  have run: "created_and_flagged opts st e \<and>
          (ids_fresh st \<longrightarrow> fst e \<notin> set (all_nodes (doc st))) \<and>
          (\<forall>a. cssUrls opts = Arr a \<longrightarrow>
               UrlRecord (snd e) (Some (JBool False)) \<in> set (arrays st a) \<longrightarrow>
               (\<exists>r \<in> set (arrays st a). r \<noteq> UrlRecord (snd e) (Some (JBool False)) \<and>
                   fst (extractUrl opts r) = snd e \<and> truthy (snd (extractUrl opts r))))"
    if q: "linkElementsToUnmount st = []"
      and e: "e \<in> set (linkElementsToUnmount (run opts evs st))" for e
  proof -
    have c: "created_and_flagged opts st e"
      using queue_inv_run [OF q, of opts evs] e by (simp add: queue_inv_def)
    have "fst e \<notin> set (all_nodes (doc st))" if "ids_fresh st"
      using that c by (auto simp: ids_fresh_def created_and_flagged_def)
    moreover have "\<exists>r \<in> set (arrays st a). r \<noteq> UrlRecord (snd e) (Some (JBool False)) \<and>
                   fst (extractUrl opts r) = snd e \<and> truthy (snd (extractUrl opts r))"
      if a: "cssUrls opts = Arr a" for a
    proof -
      obtain r where r: "r \<in> set (arrays st a)" "fst (extractUrl opts r) = snd e"
          "truthy (snd (extractUrl opts r))"
        using c a by (auto simp: created_and_flagged_def)
      have "r \<noteq> UrlRecord (snd e) (Some (JBool False))"
        using r(3) by (auto simp: extractUrl_def)
      then show ?thesis using r by blast
    qed
    ultimately show ?thesis using c by blast
  qed
  have "\<not> truthy (snd (extractUrl opts (UrlRecord h (Some (JBool False)))))"
    by (simp add: extractUrl_def)
  then show ?thesis
    using run mount_one_queue [of opts r st] by (simp add: mount_one_queue_falsy)
qed

theorem queue_holds_only_created_and_flagged_witness:
  "linkElementsToUnmount mixed_state = [] \<and>
   linkElementsToUnmount (run example_opts [Mount] mixed_state) =
     [(new_link 0 (stylesheet_attrs ''a.css''), ''a.css'')] \<and>
   ids_fresh mixed_state \<and> cssUrls example_opts = Arr 1 \<and>
   UrlRecord ''a.css'' (Some (JBool False)) \<in> set (arrays mixed_state 1) \<and>
   created_and_flagged example_opts mixed_state
     (new_link 0 (stylesheet_attrs ''a.css''), ''a.css'') \<and>
   new_link 0 (stylesheet_attrs ''a.css'') \<notin> set (all_nodes (doc mixed_state)) \<and>
   (\<exists>r \<in> set (arrays mixed_state 1). r \<noteq> UrlRecord ''a.css'' (Some (JBool False)) \<and>
       fst (extractUrl example_opts r) = ''a.css'' \<and> truthy (snd (extractUrl example_opts r)))"
proof -
  have q: "linkElementsToUnmount mixed_state = []"
    by (simp add: mixed_state_def initial_state_def)
  have r: "linkElementsToUnmount (run example_opts [Mount] mixed_state) =
     [(new_link 0 (stylesheet_attrs ''a.css''), ''a.css'')]"
    by (simp add: run_def example_opts_def defaultOptions_def mixed_state_def
        initial_state_def eval_defs)
  have f: "ids_fresh mixed_state"
    by (simp add: ids_fresh_def mixed_state_def initial_state_def all_nodes_def)
  have a: "cssUrls example_opts = Arr 1"
    by (simp add: example_opts_def)
  have m: "UrlRecord ''a.css'' (Some (JBool False)) \<in> set (arrays mixed_state 1)"
    by (simp add: mixed_state_def initial_state_def)
  show ?thesis
    using queue_holds_only_created_and_flagged
      [where st = mixed_state and opts = example_opts and evs = "[Mount]"] q r f a m
    by simp
qed

text \<open>
  C10: a record whose own property shouldUnmount is undefined yields undefined as the
  flag, not the configuration-level default; undefined is falsy, so the executor of
  mount leaves the pending-unmount queue as it was, whatever the options are (also when
  the configuration-level flag is true). Starting from an empty queue, a URL that the
  configured list gives only through such records is in no entry of the queue after any
  sequence of lifecycle calls, microtasks and dispatched events.
\<close>

theorem undefined_flag_is_not_defaulted:
  "extractUrl opts (UrlRecord h (Some JUndefined)) = (h, JUndefined) \<and>
   extractUrl (opts\<lparr>shouldUnmount := JBool True\<rparr>) (UrlRecord h (Some JUndefined)) \<noteq>
     (h, shouldUnmount (opts\<lparr>shouldUnmount := JBool True\<rparr>)) \<and>
   \<not> truthy (snd (extractUrl opts (UrlRecord h (Some JUndefined)))) \<and>
   linkElementsToUnmount (snd (mount_one opts (UrlRecord h (Some JUndefined)) st)) =
     linkElementsToUnmount st \<and>
   (linkElementsToUnmount st = [] \<and> cssUrls opts = Arr a \<and>
    (\<forall>r \<in> set (arrays st a). fst (extractUrl opts r) = h \<longrightarrow> r = UrlRecord h (Some JUndefined))
    \<longrightarrow> h \<notin> snd ` set (linkElementsToUnmount (run opts evs st)))"
proof -
  have f: "\<not> truthy (snd (extractUrl opts (UrlRecord h (Some JUndefined))))"
    by (simp add: extractUrl_def)
  have "h \<notin> snd ` set (linkElementsToUnmount (run opts evs st))"
    if q: "linkElementsToUnmount st = []" and a: "cssUrls opts = Arr a"
      and only: "\<forall>r \<in> set (arrays st a). fst (extractUrl opts r) = h \<longrightarrow>
                  r = UrlRecord h (Some JUndefined)"
  proof
    assume "h \<in> snd ` set (linkElementsToUnmount (run opts evs st))"
    then obtain e where e: "e \<in> set (linkElementsToUnmount (run opts evs st))" "snd e = h"
      by auto
    have "created_and_flagged opts st e"
      using queue_inv_run [OF q, of opts evs] e(1) by (simp add: queue_inv_def)
    then obtain r where r: "r \<in> set (arrays st a)" "fst (extractUrl opts r) = h"
        "truthy (snd (extractUrl opts r))"
      using a e(2) by (auto simp: created_and_flagged_def)
    then have "r = UrlRecord h (Some JUndefined)" using only by simp
    then show False using r(3) f by simp
  qed
  then show ?thesis
    using f by (simp add: mount_one_queue_falsy) (simp add: extractUrl_def)
qed

theorem undefined_flag_is_not_defaulted_witness:
  "shouldUnmount example_opts = JBool True \<and>
   linkElementsToUnmount undefined_flag_state = [] \<and> cssUrls example_opts = Arr 1 \<and>
   arrays undefined_flag_state 1 = [UrlRecord ''b.css'' (Some JUndefined)] \<and>
   linkElements (run example_opts [Mount] undefined_flag_state) ''b.css'' =
     Some (new_link 0 (stylesheet_attrs ''b.css'')) \<and>
   ''b.css'' \<notin> snd ` set (linkElementsToUnmount (run example_opts [Mount] undefined_flag_state))"
proof -
  have q: "linkElementsToUnmount undefined_flag_state = []"
    by (simp add: undefined_flag_state_def initial_state_def)
  have a: "cssUrls example_opts = Arr 1"
    by (simp add: example_opts_def)
  have l: "arrays undefined_flag_state 1 = [UrlRecord ''b.css'' (Some JUndefined)]"
    by (simp add: undefined_flag_state_def initial_state_def)
  have d: "shouldUnmount example_opts = JBool True"
    by (simp add: example_opts_def defaultOptions_def)
  have m: "linkElements (run example_opts [Mount] undefined_flag_state) ''b.css'' =
     Some (new_link 0 (stylesheet_attrs ''b.css''))"
    by (simp add: run_def example_opts_def defaultOptions_def undefined_flag_state_def
        initial_state_def eval_defs)
  show ?thesis
    using undefined_flag_is_not_defaulted
      [where opts = example_opts and st = undefined_flag_state and a = 1
         and h = "''b.css''" and evs = "[Mount]"] q a l d m
    by simp
qed

section \<open>Promises that wait for a load event\<close>

lemma length_settle [simp]: "length (settle q v ps) = length ps"
  by (simp add: settle_def)

lemma settle_other: "q \<noteq> p \<Longrightarrow> settle q v ps ! p = ps ! p"
  by (simp add: settle_def)

lemma fold_settle_length [simp]:
  "length (fold (\<lambda>l ps. settle (snd (snd l)) Fulfilled ps) ls ps) = length ps"
  by (induction ls arbitrary: ps) simp_all

lemma fold_settle_other:
  "\<forall>l \<in> set ls. snd (snd l) \<noteq> p \<Longrightarrow>
   fold (\<lambda>l ps. settle (snd (snd l)) Fulfilled ps) ls ps ! p = ps ! p"
  by (induction ls arbitrary: ps) (simp_all add: settle_other)

lemma mount_one_promises:
  "fst (mount_one opts r s) = length (promises s) \<and>
   (\<exists>v. promises (snd (mount_one opts r s)) = promises s @ [v])"
  by (cases rule: mount_one_cases [where opts = opts and r = r and st = s])
     (simp_all add: mount_one_adopt mount_one_create)

lemma mount_one_frame:
  "arrays (snd (mount_one opts r s)) = arrays s"
  "microtasks (snd (mount_one opts r s)) = microtasks s"
  "body_nodes (doc (snd (mount_one opts r s))) = body_nodes (doc s)"
  by (cases rule: mount_one_cases [where opts = opts and r = r and st = s];
      simp add: mount_one_adopt mount_one_create appendChild_head_def)+

lemma mount_one_listeners:
  "\<exists>ls. listeners (snd (mount_one opts r s)) = listeners s @ ls \<and>
        (\<forall>l \<in> set ls. snd (snd l) = length (promises s))"
  by (cases rule: mount_one_cases [where opts = opts and r = r and st = s])
     (simp_all add: mount_one_adopt mount_one_create)

lemma mount_one_head:
  "\<exists>ns. head_nodes (doc (snd (mount_one opts r s))) = head_nodes (doc s) @ ns"
  by (cases rule: mount_one_cases [where opts = opts and r = r and st = s])
     (simp_all add: mount_one_adopt mount_one_create appendChild_head_def)

lemma awaiting_load_grow:
  assumes "awaiting_load p k s"
    and "promises s' = promises s @ vs"
    and "listeners s' = listeners s @ ls"
    and "\<forall>l \<in> set ls. length (promises s) \<le> snd (snd l) \<and> snd (snd l) < length (promises s')"
    and "microtasks s' = microtasks s @ ts"
    and "\<forall>t \<in> set ts. length (promises s) \<le> task_promise t \<and>
                         task_promise t < length (promises s')"
  shows "awaiting_load p k s'"
  using assms unfolding awaiting_load_def promises_allocated_def
  by (auto simp: nth_append)

lemma promises_allocated_grow:
  assumes "promises_allocated s"
    and "promises s' = promises s @ vs"
    and "listeners s' = listeners s @ ls"
    and "\<forall>l \<in> set ls. snd (snd l) < length (promises s')"
    and "microtasks s' = microtasks s @ ts"
    and "\<forall>t \<in> set ts. task_promise t < length (promises s')"
  shows "promises_allocated s'"
  using assms unfolding promises_allocated_def by auto

lemma awaiting_load_mount_one:
  assumes "awaiting_load p k s"
  shows "awaiting_load p k (snd (mount_one opts r s))"
proof -
  obtain v where v: "promises (snd (mount_one opts r s)) = promises s @ [v]"
    using mount_one_promises by blast
  obtain ls where ls: "listeners (snd (mount_one opts r s)) = listeners s @ ls"
      "\<forall>l \<in> set ls. snd (snd l) = length (promises s)"
    using mount_one_listeners by blast
  show ?thesis
    by (rule awaiting_load_grow [OF assms v ls(1) _ _ _, where ts = "[]"])
       (use ls(2) v in \<open>simp_all add: mount_one_frame\<close>)
qed

lemma promises_allocated_mount_one:
  assumes "promises_allocated s"
  shows "promises_allocated (snd (mount_one opts r s))"
proof -
  obtain v where v: "promises (snd (mount_one opts r s)) = promises s @ [v]"
    using mount_one_promises by blast
  obtain ls where ls: "listeners (snd (mount_one opts r s)) = listeners s @ ls"
      "\<forall>l \<in> set ls. snd (snd l) = length (promises s)"
    using mount_one_listeners by blast
  show ?thesis
    by (rule promises_allocated_grow [OF assms v ls(1) _ _ _, where ts = "[]"])
       (use ls(2) v in \<open>simp_all add: mount_one_frame\<close>)
qed

lemma awaiting_load_bootstrap_one:
  assumes "awaiting_load p k s"
  shows "awaiting_load p k (snd (bootstrap_one opts r s))"
proof -
  obtain v where v: "promises (snd (bootstrap_one opts r s)) = promises s @ [v]"
    using bootstrap_one_promises by blast
  show ?thesis
    by (rule awaiting_load_grow [where s = s and vs = "[v]" and ls = "[]" and ts = "[]"])
       (simp_all add: assms v bootstrap_one_frame)
qed

lemma schedule_removal_grow:
  "promises (snd (schedule_removal e s)) = promises s @ [Pending]"
  "microtasks (snd (schedule_removal e s)) =
     microtasks s @ [RemoveLink (fst e) (snd e) (length (promises s))]"
  by (simp_all add: schedule_removal_def new_promise_def)

lemma awaiting_load_schedule_removal:
  "awaiting_load p k s \<Longrightarrow> awaiting_load p k (snd (schedule_removal e s))"
  by (rule awaiting_load_grow [where s = s and vs = "[Pending]" and ls = "[]"
        and ts = "[RemoveLink (fst e) (snd e) (length (promises s))]"])
     (simp_all add: schedule_removal_grow schedule_removal_frame2)

lemma run_task_promises:
  "promises (run_task t s) = settle (task_promise t) Fulfilled (promises s)"
  by (cases t) (simp add: Let_def)

lemma awaiting_load_step:
  assumes "awaiting_load p k s" and "ev \<noteq> Dispatch k ''load''"
  shows "awaiting_load p k (step opts ev s)"
proof (cases ev)
  case Bootstrap
  show ?thesis
  proof (cases "cssUrls opts")
    case (Arr a)
    have "awaiting_load p k (snd (map_promises (bootstrap_one opts) (arrays s a) s))"
      using assms(1) awaiting_load_bootstrap_one
      by (intro map_promises_invariant [where P = "awaiting_load p k"])
    then show ?thesis using Bootstrap Arr by (simp add: bootstrap_def)
  next
    case (NotArr v)
    then show ?thesis using Bootstrap assms by (simp add: bootstrap_def)
  qed
next
  case Mount
  show ?thesis
  proof (cases "cssUrls opts")
    case (Arr a)
    have "awaiting_load p k (snd (map_promises (mount_one opts) (arrays s a) s))"
      using assms(1) awaiting_load_mount_one
      by (intro map_promises_invariant [where P = "awaiting_load p k"])
    then show ?thesis using Mount Arr by (simp add: mount_def)
  next
    case (NotArr v)
    then show ?thesis using Mount assms by (simp add: mount_def)
  qed
next
  case Unmount
  have "awaiting_load p k (s\<lparr>linkElementsToUnmount := []\<rparr>)"
    using assms(1) by (simp add: awaiting_load_def promises_allocated_def)
  then have "awaiting_load p k (snd (map_promises schedule_removal (linkElementsToUnmount s)
      (s\<lparr>linkElementsToUnmount := []\<rparr>)))"
    using awaiting_load_schedule_removal
    by (intro map_promises_invariant [where P = "awaiting_load p k"])
  then show ?thesis using Unmount by (simp add: unmount_def Let_def)
next
  case Microtask
  show ?thesis
  proof (cases "microtasks s")
    case Nil
    then show ?thesis using Microtask assms by (simp add: run_microtask_def)
  next
    case (Cons t ts)
    have "awaiting_load p k (run_task t (s\<lparr>microtasks := ts\<rparr>))"
      using assms(1) Cons
      unfolding awaiting_load_def promises_allocated_def
      by (simp add: run_task_frame run_task_promises settle_other)
    then show ?thesis using Microtask Cons by (simp add: run_microtask_def)
  qed
next
  case (Dispatch n ty)
  have "\<forall>l \<in> set (filter (\<lambda>l. fst l = n \<and> fst (snd l) = ty) (listeners s)). snd (snd l) \<noteq> p"
    using assms Dispatch unfolding awaiting_load_def by auto
  then show ?thesis
    using assms(1) Dispatch unfolding awaiting_load_def promises_allocated_def
    by (simp add: dispatchEvent_def fold_settle_other)
qed

text \<open>A settled promise stays as it is, and a pending one can only become fulfilled.\<close>

lemma promises_advance_refl: "promises_advance ps ps"
  by (simp add: promises_advance_def)

lemma promises_advance_trans:
  assumes "promises_advance ps ps'" and "promises_advance ps' ps''"
  shows "promises_advance ps ps''"
  unfolding promises_advance_def
proof (intro conjI allI impI)
  show "length ps \<le> length ps''"
    using assms by (simp add: promises_advance_def)
next
  fix q
  assume q: "q < length ps"
  then have q': "q < length ps'"
    using assms(1) by (simp add: promises_advance_def)
  have 1: "ps' ! q = ps ! q \<or> (ps ! q = Pending \<and> ps' ! q = Fulfilled)"
    using assms(1) q by (simp add: promises_advance_def)
  have 2: "ps'' ! q = ps' ! q \<or> (ps' ! q = Pending \<and> ps'' ! q = Fulfilled)"
    using assms(2) q' by (simp add: promises_advance_def)
  show "ps'' ! q = ps ! q \<or> (ps ! q = Pending \<and> ps'' ! q = Fulfilled)"
    using 1 2 by auto
qed

lemma promises_advance_append: "promises_advance ps (ps @ vs)"
  by (simp add: promises_advance_def nth_append)

lemma promises_advance_settle: "promises_advance ps (settle q Fulfilled ps)"
  by (auto simp: promises_advance_def settle_def nth_list_update)

lemma promises_advance_fold_settle:
  "promises_advance ps (fold (\<lambda>l ps. settle (snd (snd l)) Fulfilled ps) ls ps)"
proof (induction ls arbitrary: ps)
  case Nil
  show ?case by (simp add: promises_advance_refl)
next
  case (Cons l ls)
  show ?case
    using promises_advance_trans [OF promises_advance_settle Cons.IH] by simp
qed

lemma promises_advance_map:
  assumes "\<And>x s. \<exists>v. promises (snd (f x s)) = promises s @ [v]"
  shows "promises_advance (promises st) (promises (snd (map_promises f xs st)))"
proof -
  have "promises_advance (promises st) (promises (snd (f x s)))"
    if "promises_advance (promises st) (promises s)" for x s
  proof -
    obtain v where "promises (snd (f x s)) = promises s @ [v]"
      using assms by blast
    then show ?thesis
      using promises_advance_trans [OF that promises_advance_append [of "promises s" "[v]"]]
      by simp
  qed
  then show ?thesis
    using promises_advance_refl
    by (intro map_promises_invariant [where P = "\<lambda>s. promises_advance (promises st) (promises s)"])
qed

lemma promises_advance_mount:
  "promises_advance (promises st) (promises (snd (map_promises (mount_one opts) rs st)))"
  using mount_one_promises by (intro promises_advance_map) blast

lemma promises_advance_step: "promises_advance (promises s) (promises (step opts ev s))"
proof (cases ev)
  case Bootstrap
  then show ?thesis
    using promises_advance_map [where f = "bootstrap_one opts", OF bootstrap_one_promises]
    by (simp add: bootstrap_def promises_advance_refl split: css_urls_val.splits)
next
  case Mount
  then show ?thesis
    using promises_advance_mount
    by (simp add: mount_def promises_advance_refl split: css_urls_val.splits)
next
  case Unmount
  have "promises_advance (promises (s\<lparr>linkElementsToUnmount := []\<rparr>))
      (promises (snd (map_promises schedule_removal (linkElementsToUnmount s)
         (s\<lparr>linkElementsToUnmount := []\<rparr>))))"
    by (rule promises_advance_map) (simp add: schedule_removal_grow)
  then show ?thesis using Unmount by (simp add: unmount_def Let_def)
next
  case Microtask
  then show ?thesis
    by (simp add: run_microtask_def run_task_promises promises_advance_refl
        promises_advance_settle split: list.splits)
next
  case (Dispatch n ty)
  then show ?thesis
    by (simp add: dispatchEvent_def promises_advance_fold_settle)
qed

lemma promises_advance_run: "promises_advance (promises s) (promises (run opts evs s))"
  unfolding run_def
proof (induction evs arbitrary: s)
  case Nil
  show ?case by (simp add: promises_advance_refl)
next
  case (Cons ev evs)
  show ?case
    using promises_advance_trans [OF promises_advance_step Cons.IH] by simp
qed

lemma promises_advance_nth:
  assumes "promises_advance ps ps'" and "q < length ps"
  shows "q < length ps' \<and> (ps' ! q = ps ! q \<or> (ps ! q = Pending \<and> ps' ! q = Fulfilled))"
  using assms by (simp add: promises_advance_def)

lemma unrejected_advance:
  assumes "unrejected ps s" and "promises_advance (promises s) (promises s')"
  shows "unrejected ps s'"
  unfolding unrejected_def
proof (intro ballI)
  fix q
  assume "q \<in> set ps"
  then have q: "q < length (promises s)" and nr: "\<not> is_rejected (promises s ! q)"
    using assms(1) by (simp_all add: unrejected_def)
  show "q < length (promises s') \<and> \<not> is_rejected (promises s' ! q)"
    using promises_advance_nth [OF assms(2) q] nr by (auto simp: is_rejected_def)
qed

lemma rejected_advance:
  assumes "q < length ps" and "is_rejected (ps ! q)" and "promises_advance ps ps'"
  shows "q < length ps' \<and> is_rejected (ps' ! q)"
  using promises_advance_nth [OF assms(3) assms(1)] assms(2)
  by (auto simp: is_rejected_def)

text \<open>\<open>Promise.all\<close>: pending, not fulfilled, rejected.\<close>

lemma promise_all_not_rejected:
  "\<forall>q \<in> set ps. q < length vs \<and> \<not> is_rejected (vs ! q) \<Longrightarrow> \<not> is_rejected (promise_all vs ps)"
  by (induction ps) (auto simp: is_rejected_def split: pstate.splits)

lemma promise_all_not_fulfilled:
  "p \<in> set ps \<Longrightarrow> p < length vs \<Longrightarrow> vs ! p = Pending \<Longrightarrow> promise_all vs ps \<noteq> Fulfilled"
  by (induction ps) (auto split: pstate.splits)

lemma promise_all_pending:
  assumes "\<forall>q \<in> set ps. q < length vs \<and> \<not> is_rejected (vs ! q)"
    and "p \<in> set ps" and "p < length vs" and "vs ! p = Pending"
  shows "promise_all vs ps = Pending"
  using promise_all_not_rejected [OF assms(1)] promise_all_not_fulfilled [OF assms(2,3,4)]
  by (cases "promise_all vs ps") (simp_all add: is_rejected_def)

lemma promise_all_rejected:
  "q \<in> set ps \<Longrightarrow> q < length vs \<Longrightarrow> is_rejected (vs ! q) \<Longrightarrow> is_rejected (promise_all vs ps)"
  by (induction ps) (auto simp: is_rejected_def split: pstate.splits)

lemma map_promises_Cons:
  "map_promises f (x # xs) st =
     (fst (f x st) # fst (map_promises f xs (snd (f x st))),
      snd (map_promises f xs (snd (f x st))))"
  by (simp add: split_beta Let_def)

declare map_promises.simps(2) [simp del]

lemma map_promises_append:
  "map_promises f (xs @ ys) st =
     (fst (map_promises f xs st) @ fst (map_promises f ys (snd (map_promises f xs st))),
      snd (map_promises f ys (snd (map_promises f xs st))))"
  by (induction xs arbitrary: st) (simp_all add: map_promises_Cons)

lemma length_map_promises [simp]: "length (fst (map_promises f xs st)) = length xs"
  by (induction xs arbitrary: st) (simp_all add: map_promises_Cons)

lemma mount_all_allocated:
  "\<forall>q \<in> set (fst (map_promises (mount_one opts) rs s)).
      q < length (promises (snd (map_promises (mount_one opts) rs s)))"
proof (induction rs arbitrary: s)
  case Nil
  show ?case by simp
next
  case (Cons r rs)
  let ?s1 = "snd (mount_one opts r s)"
  have "length (promises s) < length (promises ?s1)"
    using mount_one_promises [of opts r s] by auto
  moreover have "length (promises ?s1) \<le> length (promises (snd (map_promises (mount_one opts) rs ?s1)))"
    using promises_advance_mount [of ?s1 opts rs] by (simp add: promises_advance_def)
  ultimately show ?case
    using Cons.IH [of ?s1] mount_one_promises [of opts r s] by (simp add: map_promises_Cons)
qed

lemma created_for_mount_one:
  assumes "created_for p k n s"
  shows "created_for p k n (snd (mount_one opts r s))"
proof -
  obtain ls where "listeners (snd (mount_one opts r s)) = listeners s @ ls"
    using mount_one_listeners by blast
  moreover obtain ns where "head_nodes (doc (snd (mount_one opts r s))) = head_nodes (doc s) @ ns"
    using mount_one_head by blast
  ultimately show ?thesis
    using assms awaiting_load_mount_one [of p k s opts r] by (simp add: created_for_def)
qed

text \<open>
  C3, refuted twice. On the empty page, mount of \<open>["a.css", "b.css"]\<close> with a factory
  that throws for \<open>b.css\<close> creates the link for \<open>a.css\<close>, whose promise is pending,
  and the executor of the second URL throws: the composite promise of the call is
  rejected at once, without any load event. The same happens with the default options on
  \<open>["a.css", "x\ny.css"]\<close>, where a line feed inside the quoted string makes the
  selector invalid and \<open>querySelector\<close> throws.
\<close>

theorem composite_settles_without_load:
  "\<not> isl (mount throwing_opts two_url_state) \<and>
   fst (projr (mount throwing_opts two_url_state)) = [0, 1] \<and>
   head_nodes (doc (snd (projr (mount throwing_opts two_url_state)))) =
     [new_link 0 (stylesheet_attrs ''a.css'')] \<and>
   promises (snd (projr (mount throwing_opts two_url_state))) ! 0 = Pending \<and>
   promise_all (promises (snd (projr (mount throwing_opts two_url_state))))
     (fst (projr (mount throwing_opts two_url_state))) = Rejected (Thrown (JStr ''no link'')) \<and>
   \<not> isl (mount example_opts newline_state) \<and>
   fst (projr (mount example_opts newline_state)) = [0, 1] \<and>
   head_nodes (doc (snd (projr (mount example_opts newline_state)))) =
     [new_link 0 (stylesheet_attrs ''a.css'')] \<and>
   promises (snd (projr (mount example_opts newline_state))) ! 0 = Pending \<and>
   promise_all (promises (snd (projr (mount example_opts newline_state))))
     (fst (projr (mount example_opts newline_state))) = Rejected SyntaxError"
  by (simp add: example_opts_def throwing_opts_def defaultOptions_def newline_state_def
      newline_url_def two_url_state_def initial_state_def eval_defs map_promises_Cons
      querySelector_stylesheet_def query_def href_is_def css_defs)

text \<open>
  C3, amended: in a well-formed state, let mount run on a list in which the reference
  \<open>r\<close> finds no stylesheet element for its URL when its executor runs, and for which
  the call of the factory returns an element. Then mount has inserted that element, the
  promise of \<open>r\<close> has exactly one way to be resolved, the \<open>load\<close> listener on that
  element, and after every sequence of lifecycle calls, microtasks and dispatched events
  that does not dispatch \<open>load\<close> on that element (an \<open>error\<close> event on it included)
  the promise of \<open>r\<close> is pending and the composite promise of the mount call is not
  fulfilled: it is pending when no promise of the call was rejected as mount returned,
  and rejected otherwise (an executor of the same call threw).
\<close>

theorem load_failure_never_settles:
  assumes alloc: "promises_allocated st"
    and arr: "cssUrls opts = Arr a" and refs: "arrays st a = pre @ r # post"
    and absent: "querySelector_stylesheet (doc (snd (map_promises (mount_one opts) pre st)))
                   (fst (extractUrl opts r)) = Inr None"
    and made: "call_createLink opts (fst (extractUrl opts r)) = Inr at"
    and mnt: "mount opts st = Inr (ps, st')"
  shows "\<exists>k. new_link k at \<in> set (head_nodes (doc st')) \<and>
             (k, ''load'', ps ! length pre) \<in> set (listeners st') \<and>
             (\<forall>l \<in> set (listeners st'). snd (snd l) = ps ! length pre \<longrightarrow>
                  l = (k, ''load'', ps ! length pre)) \<and>
             (\<forall>evs. Dispatch k ''load'' \<notin> set evs \<longrightarrow>
                  promises (run opts evs st') ! (ps ! length pre) = Pending \<and>
                  promise_all (promises (run opts evs st')) ps \<noteq> Fulfilled \<and>
                  (unrejected ps st' \<longrightarrow>
                     promise_all (promises (run opts evs st')) ps = Pending) \<and>
                  (\<not> unrejected ps st' \<longrightarrow>
                     is_rejected (promise_all (promises (run opts evs st')) ps)))"
proof -
  let ?sti = "snd (map_promises (mount_one opts) pre st)"
  let ?stj = "snd (mount_one opts r ?sti)"
  let ?p = "length (promises ?sti)"
  let ?k = "next_id ?sti"
  let ?n = "new_link ?k at"
  have ai: "promises_allocated ?sti"
    using alloc promises_allocated_mount_one
    by (intro map_promises_invariant [where P = promises_allocated])
  have cj: "created_for ?p ?k ?n ?stj"
    using ai unfolding created_for_def awaiting_load_def promises_allocated_def
    by (auto simp: mount_one_create [OF absent made] appendChild_head_def nth_append)
  have res: "(ps, st') = map_promises (mount_one opts) (pre @ r # post) st"
    using mnt arr refs by (simp add: mount_def)
  have st': "st' = snd (map_promises (mount_one opts) post ?stj)"
    using res by (simp add: map_promises_append map_promises_Cons)
  have ps: "ps = fst (map_promises (mount_one opts) pre st) @
                 ?p # fst (map_promises (mount_one opts) post ?stj)"
    using res mount_one_promises [of opts r ?sti]
    by (simp add: map_promises_append map_promises_Cons)
  have p: "ps ! length pre = ?p"
    by (simp add: ps nth_append)
  have mem: "?p \<in> set ps" by (simp add: ps)
  have cf: "created_for ?p ?k ?n st'"
    unfolding st' using cj created_for_mount_one
    by (intro map_promises_invariant [where P = "created_for ?p ?k ?n"])
  have allocd: "\<forall>q \<in> set ps. q < length (promises st')"
    using mount_all_allocated [of opts "pre @ r # post" st] res [symmetric] by simp
  have fin: "promises (run opts evs st') ! ?p = Pending \<and>
             promise_all (promises (run opts evs st')) ps \<noteq> Fulfilled \<and>
             (unrejected ps st' \<longrightarrow> promise_all (promises (run opts evs st')) ps = Pending) \<and>
             (\<not> unrejected ps st' \<longrightarrow>
                is_rejected (promise_all (promises (run opts evs st')) ps))"
    if nl: "Dispatch ?k ''load'' \<notin> set evs" for evs
  proof -
    let ?vs = "promises (run opts evs st')"
    have a0: "awaiting_load ?p ?k st'" using cf by (simp add: created_for_def)
    have a1: "awaiting_load ?p ?k (step opts e s)"
      if "e \<in> set evs" "awaiting_load ?p ?k s" for e s
    proof -
      have "e \<noteq> Dispatch ?k ''load''" using that(1) nl by auto
      then show ?thesis using that(2) by (rule awaiting_load_step [rotated])
    qed
    have al: "awaiting_load ?p ?k (run opts evs st')"
      unfolding run_def using a1 a0
      by (rule fold_invariant [where P = "awaiting_load ?p ?k"])
    have pend: "?vs ! ?p = Pending" and inr: "?p < length ?vs"
      using al by (simp_all add: awaiting_load_def)
    have adv: "promises_advance (promises st') ?vs"
      by (rule promises_advance_run)
    have nf: "promise_all ?vs ps \<noteq> Fulfilled"
      using mem inr pend by (rule promise_all_not_fulfilled)
    have pe: "promise_all ?vs ps = Pending" if "unrejected ps st'"
    proof -
      have "unrejected ps (run opts evs st')"
        using that adv by (rule unrejected_advance)
      then show ?thesis
        using mem inr pend by (intro promise_all_pending [where p = ?p]) (simp_all add: unrejected_def)
    qed
    have re: "is_rejected (promise_all ?vs ps)" if nu: "\<not> unrejected ps st'"
    proof -
      obtain q where q: "q \<in> set ps" "is_rejected (promises st' ! q)"
        using nu allocd by (auto simp: unrejected_def)
      have "q < length ?vs \<and> is_rejected (?vs ! q)"
        using allocd q adv by (intro rejected_advance [where ps = "promises st'"]) simp_all
      then show ?thesis using q(1) by (intro promise_all_rejected [where q = q]) simp_all
    qed
    show ?thesis using pend nf pe re by blast
  qed
  have "?n \<in> set (head_nodes (doc st'))" "(?k, ''load'', ?p) \<in> set (listeners st')"
    "\<forall>l \<in> set (listeners st'). snd (snd l) = ?p \<longrightarrow> l = (?k, ''load'', ?p)"
    using cf by (simp_all add: created_for_def awaiting_load_def)
  then show ?thesis
    using fin unfolding p by blast
qed

theorem load_failure_never_settles_witness:
  "promises_allocated caller_state \<and> cssUrls example_opts = Arr 1 \<and>
   arrays caller_state 1 = [] @ UrlString ''a.css'' # [] \<and>
   querySelector_stylesheet (doc (snd (map_promises (mount_one example_opts) [] caller_state)))
     (fst (extractUrl example_opts (UrlString ''a.css''))) = Inr None \<and>
   call_createLink example_opts (fst (extractUrl example_opts (UrlString ''a.css''))) =
     Inr (stylesheet_attrs ''a.css'') \<and>
   mount example_opts caller_state = Inr ([0], mounted_state) \<and>
   unrejected [0] mounted_state \<and>
   (\<exists>k. new_link k (stylesheet_attrs ''a.css'') \<in> set (head_nodes (doc mounted_state)) \<and>
        (k, ''load'', 0) \<in> set (listeners mounted_state) \<and>
        Dispatch k ''load'' \<notin> set [Dispatch k ''error'', Microtask] \<and>
        promises (run example_opts [Dispatch k ''error'', Microtask] mounted_state) ! 0 =
          Pending \<and>
        promise_all (promises (run example_opts [Dispatch k ''error'', Microtask] mounted_state))
          [0] = Pending)"
proof -
  have h1: "promises_allocated caller_state"
    by (simp add: promises_allocated_def caller_state_def initial_state_def)
  have h2: "cssUrls example_opts = Arr 1"
    by (simp add: example_opts_def)
  have h3: "arrays caller_state 1 = [] @ UrlString ''a.css'' # []"
    by (simp add: caller_state_def initial_state_def)
  have h4: "querySelector_stylesheet
     (doc (snd (map_promises (mount_one example_opts) [] caller_state)))
     (fst (extractUrl example_opts (UrlString ''a.css''))) = Inr None"
    by (simp add: caller_state_def initial_state_def eval_defs)
  have h5: "call_createLink example_opts (fst (extractUrl example_opts (UrlString ''a.css''))) =
     Inr (stylesheet_attrs ''a.css'')"
    by (simp add: example_opts_def defaultOptions_def call_createLink_def
        default_createLink_def extractUrl_def)
  have h6: "mount example_opts caller_state = Inr ([0], mounted_state)"
    by (simp add: example_opts_def defaultOptions_def caller_state_def initial_state_def
        mounted_state_def map_promises_Cons eval_defs)
  have u: "unrejected [0] mounted_state"
    by (simp add: unrejected_def is_rejected_def mounted_state_def)
  obtain k where k: "new_link k (stylesheet_attrs ''a.css'') \<in> set (head_nodes (doc mounted_state))"
      "(k, ''load'', [0] ! length ([] :: css_url list)) \<in> set (listeners mounted_state)"
      "\<forall>evs. Dispatch k ''load'' \<notin> set evs \<longrightarrow>
          promises (run example_opts evs mounted_state) ! ([0] ! length ([] :: css_url list)) =
            Pending \<and>
          (unrejected [0] mounted_state \<longrightarrow>
             promise_all (promises (run example_opts evs mounted_state)) [0] = Pending)"
    using load_failure_never_settles [OF h1 h2 h3 h4 h5 h6] by blast
  have n: "Dispatch k ''load'' \<notin> set [Dispatch k ''error'', Microtask]"
    by simp
  have l: "(k, ''load'', 0) \<in> set (listeners mounted_state)"
    using k(2) by simp
  have "promises (run example_opts [Dispatch k ''error'', Microtask] mounted_state) ! 0 =
          Pending \<and>
        promise_all (promises (run example_opts [Dispatch k ''error'', Microtask] mounted_state))
          [0] = Pending"
    using k(3) n u by (metis length_0_conv nth_Cons_0 list.size(3))
  then show ?thesis
    using h1 h2 h3 h4 h5 h6 u n l k(1) by blast
qed

section \<open>Adoption of elements that are already in the document\<close>
















end
